theory Spec2Isabelle
  imports Complex_Main "HOL-Library.Word" "HOL-Library.AList" "HOL-Library.Sublist"
begin

section \<open>Bytes, blobs and the DataView writes of \<open>utils/audioUtils.ts\<close>\<close>

text \<open>
  A \<open>Uint8Array\<close> is a list of 8-bit words. A JavaScript number that holds a
  non-negative integer (a length, an offset, the sample rate) is a \<open>nat\<close>; storing it
  into a byte, a 16-bit or a 32-bit field keeps its low bits only, as \<open>ToUint8\<close>,
  \<open>ToUint16\<close> and \<open>ToUint32\<close> do. A \<open>DataView\<close> write outside the buffer raises
  \<open>RangeError\<close>: the write returns \<open>None\<close> there.
\<close>

type_synonym byte = "8 word"

record blob =
  blob_bytes :: "byte list"
  blob_type :: string

definition setUint8 :: "nat \<Rightarrow> nat \<Rightarrow> byte list \<Rightarrow> byte list option" where
  "setUint8 byteOffset v view =
     (if byteOffset + 1 \<le> length view then Some (view[byteOffset := of_nat v]) else None)"

definition setUint16 :: "nat \<Rightarrow> nat \<Rightarrow> bool \<Rightarrow> byte list \<Rightarrow> byte list option" where
  "setUint16 byteOffset v littleEndian view =
     (if byteOffset + 2 \<le> length view
      then Some (if littleEndian
                 then view[byteOffset := of_nat v, byteOffset + 1 := of_nat (v div 256)]
                 else view[byteOffset := of_nat (v div 256), byteOffset + 1 := of_nat v])
      else None)"

definition setUint32 :: "nat \<Rightarrow> nat \<Rightarrow> bool \<Rightarrow> byte list \<Rightarrow> byte list option" where
  "setUint32 byteOffset v littleEndian view =
     (if byteOffset + 4 \<le> length view
      then Some (if littleEndian
                 then view[byteOffset := of_nat v, byteOffset + 1 := of_nat (v div 256),
                           byteOffset + 2 := of_nat (v div 65536),
                           byteOffset + 3 := of_nat (v div 16777216)]
                 else view[byteOffset := of_nat (v div 16777216),
                           byteOffset + 1 := of_nat (v div 65536),
                           byteOffset + 2 := of_nat (v div 256), byteOffset + 3 := of_nat v])
      else None)"

text \<open>\<open>writeString\<close>: the loop \<open>for (i = 0; i < string.length; i++)\<close>, one byte per
  character code.\<close>

fun writeString_from :: "nat \<Rightarrow> nat \<Rightarrow> string \<Rightarrow> byte list \<Rightarrow> byte list option" where
  "writeString_from offset i [] view = Some view"
| "writeString_from offset i (c # cs) view =
     Option.bind (setUint8 (offset + i) (of_char c) view) (writeString_from offset (i + 1) cs)"

definition writeString :: "nat \<Rightarrow> string \<Rightarrow> byte list \<Rightarrow> byte list option" where
  "writeString offset s view = writeString_from offset 0 s view"

text \<open>\<open>new Uint8Array(buffer, 44).set(pcmData)\<close>: the source bytes replace the bytes
  of the buffer from the offset on; a source longer than the room left raises
  \<open>RangeError\<close>.\<close>

definition uint8_set :: "nat \<Rightarrow> byte list \<Rightarrow> byte list \<Rightarrow> byte list option" where
  "uint8_set byteOffset src buffer =
     (if byteOffset + length src \<le> length buffer
      then Some (take byteOffset buffer @ src @ drop (byteOffset + length src) buffer)
      else None)"

text \<open>\<open>pcmToWav\<close>: a zero-filled buffer of \<open>44 + dataSize\<close> bytes, the thirteen header
  writes in the order of the source, then the payload. The result is the blob the
  promise resolves to, \<open>None\<close> if a write raised.\<close>

definition pcmToWav :: "byte list \<Rightarrow> nat \<Rightarrow> blob option" where
  "pcmToWav pcmData sampleRate =
     (let numChannels = 1;
          bitsPerSample = 16;
          byteRate = (sampleRate * numChannels * bitsPerSample) div 8;
          blockAlign = (numChannels * bitsPerSample) div 8;
          dataSize = length pcmData;
          buffer = replicate (44 + dataSize) (0 :: byte)
      in Option.bind (writeString 0 ''RIFF'' buffer) (\<lambda>view.
         Option.bind (setUint32 4 (36 + dataSize) True view) (\<lambda>view.
         Option.bind (writeString 8 ''WAVE'' view) (\<lambda>view.
         Option.bind (writeString 12 ''fmt '' view) (\<lambda>view.
         Option.bind (setUint32 16 16 True view) (\<lambda>view.
         Option.bind (setUint16 20 1 True view) (\<lambda>view.
         Option.bind (setUint16 22 numChannels True view) (\<lambda>view.
         Option.bind (setUint32 24 sampleRate True view) (\<lambda>view.
         Option.bind (setUint32 28 byteRate True view) (\<lambda>view.
         Option.bind (setUint16 32 blockAlign True view) (\<lambda>view.
         Option.bind (setUint16 34 bitsPerSample True view) (\<lambda>view.
         Option.bind (writeString 36 ''data'' view) (\<lambda>view.
         Option.bind (setUint32 40 dataSize True view) (\<lambda>view.
         Option.bind (uint8_set 44 pcmData view) (\<lambda>buffer.
         Some \<lparr>blob_bytes = buffer, blob_type = ''audio/wav''\<rparr>)))))))))))))))"

text \<open>What a reader of the file sees: little-endian fields and four-character tags.\<close>

definition getUint16 :: "nat \<Rightarrow> byte list \<Rightarrow> nat" where
  "getUint16 off bs = unat (bs ! off) + 256 * unat (bs ! (off + 1))"

definition getUint32 :: "nat \<Rightarrow> byte list \<Rightarrow> nat" where
  "getUint32 off bs = unat (bs ! off) + 256 * unat (bs ! (off + 1))
     + 65536 * unat (bs ! (off + 2)) + 16777216 * unat (bs ! (off + 3))"

definition tag_at :: "nat \<Rightarrow> byte list \<Rightarrow> string" where
  "tag_at off bs = map (\<lambda>b. char_of (unat b)) (take 4 (drop off bs))"

text \<open>The 44 header bytes written for a payload of \<open>n\<close> bytes at rate \<open>r\<close>, field by
  field: \<open>le16\<close> and \<open>le32\<close> are the little-endian bytes of the low 16 and 32 bits of a
  number, \<open>ascii\<close> the character codes of a tag.\<close>

definition le16 :: "nat \<Rightarrow> byte list" where
  "le16 v = [of_nat v, of_nat (v div 256)]"

definition le32 :: "nat \<Rightarrow> byte list" where
  "le32 v = [of_nat v, of_nat (v div 256), of_nat (v div 65536), of_nat (v div 16777216)]"

definition ascii :: "string \<Rightarrow> byte list" where
  "ascii s = map (\<lambda>c. of_nat (of_char c)) s"

definition wav_header :: "nat \<Rightarrow> nat \<Rightarrow> byte list" where
  "wav_header n r =
     ascii ''RIFF'' @ le32 (36 + n) @ ascii ''WAVE'' @
     ascii ''fmt '' @ le32 16 @ le16 1 @ le16 1 @ le32 r @ le32 (r * 2) @ le16 2 @ le16 16 @
     ascii ''data'' @ le32 n"


section \<open>Base64: \<open>atob\<close>, \<open>btoa\<close> and the two helpers that call them\<close>

text \<open>
  \<open>decodeBase64\<close> (and \<open>decode\<close> in \<open>components/ScriptAssistant.tsx\<close>, the same text) is
  \<open>atob\<close> followed by a loop that copies character codes into a \<open>Uint8Array\<close>; \<open>encode\<close>
  builds a binary string from the bytes and calls \<open>btoa\<close>. The two host functions are
  modelled after their definition in the HTML and Infra standards ("forgiving-base64
  decode" and "forgiving-base64 encode", the latter being the base64 of RFC 4648 with
  padding). A string is a list of 8-bit characters: \<open>atob\<close> returns such a binary string,
  and any other code unit in its argument is outside the alphabet.
\<close>

datatype dom_exception = InvalidCharacterError

definition base64_alphabet :: string where
  "base64_alphabet = ''ABCDEFGHIJKLMNOPQRSTUVWXYZabcdefghijklmnopqrstuvwxyz0123456789+/''"

text \<open>The number of a character in the table of RFC 4648, if it is in the table.\<close>

fun position :: "'a \<Rightarrow> 'a list \<Rightarrow> nat option" where
  "position c [] = None"
| "position c (x # xs) = (if c = x then Some 0 else map_option Suc (position c xs))"

definition base64_value :: "char \<Rightarrow> nat option" where
  "base64_value c = position c base64_alphabet"

definition base64_char :: "nat \<Rightarrow> char" where
  "base64_char n = base64_alphabet ! n"

text \<open>ASCII whitespace: TAB, LF, FF, CR and SPACE.\<close>

definition ascii_whitespace :: "char \<Rightarrow> bool" where
  "ascii_whitespace c \<longleftrightarrow> c \<in> {CHR 0x09, CHR 0x0A, CHR 0x0C, CHR 0x0D, CHR 0x20}"

definition ends_with :: "string \<Rightarrow> string \<Rightarrow> bool" where
  "ends_with d s \<longleftrightarrow> length s \<le> length d \<and> drop (length d - length s) d = s"

text \<open>Step 2 of the decoder: if the length is a multiple of 4, one or two trailing
  \<open>=\<close> are removed.\<close>

definition strip_padding :: "string \<Rightarrow> string" where
  "strip_padding d =
     (if length d mod 4 = 0
      then (if ends_with d ''=='' then take (length d - 2) d
            else if ends_with d ''='' then take (length d - 1) d
            else d)
      else d)"

text \<open>
  Steps 5 to 10: six bits per character are appended to a buffer; at 24 bits three
  bytes are output and the buffer is emptied; 12 or 18 bits left at the end give one or
  two bytes, the last four or two bits being discarded. \<open>bits\<close> counts the bits in
  \<open>buffer\<close>.
\<close>

fun decode_loop :: "string \<Rightarrow> nat \<Rightarrow> nat \<Rightarrow> byte list \<Rightarrow> dom_exception + byte list" where
  "decode_loop [] buffer bits output =
     Inr (if bits = 12 then output @ [of_nat (buffer div 16)]
          else if bits = 18
          then output @ [of_nat (buffer div 4 div 256), of_nat (buffer div 4 mod 256)]
          else output)"
| "decode_loop (c # cs) buffer bits output =
     (case base64_value c of
        None \<Rightarrow> Inl InvalidCharacterError
      | Some n \<Rightarrow>
          (let buffer' = buffer * 64 + n; bits' = bits + 6
           in if bits' = 24
              then decode_loop cs 0 0
                     (output @ [of_nat (buffer' div 65536), of_nat (buffer' div 256 mod 256),
                                of_nat (buffer' mod 256)])
              else decode_loop cs buffer' bits' output))"

definition forgiving_base64_decode :: "string \<Rightarrow> dom_exception + byte list" where
  "forgiving_base64_decode data =
     (let data1 = filter (\<lambda>c. \<not> ascii_whitespace c) data;
          data2 = strip_padding data1
      in if length data2 mod 4 = 1 then Inl InvalidCharacterError
         else if \<exists>c\<in>set data2. c \<notin> set base64_alphabet then Inl InvalidCharacterError
         else decode_loop data2 0 0 [])"

text \<open>\<open>atob\<close>: the decoded bytes as a binary string, or the exception.\<close>

definition atob :: "string \<Rightarrow> dom_exception + string" where
  "atob data =
     (case forgiving_base64_decode data of
        Inl e \<Rightarrow> Inl e
      | Inr bytes \<Rightarrow> Inr (map (\<lambda>b. char_of (unat b)) bytes))"

text \<open>\<open>decodeBase64\<close>: the exception of \<open>atob\<close> propagates; otherwise byte \<open>i\<close> is the
  character code at index \<open>i\<close>, for \<open>i\<close> from 0 to the length.\<close>

definition charCodeAt :: "string \<Rightarrow> nat \<Rightarrow> nat" where
  "charCodeAt s i = of_char (s ! i)"

definition decodeBase64 :: "string \<Rightarrow> dom_exception + byte list" where
  "decodeBase64 base64 =
     (case atob base64 of
        Inl e \<Rightarrow> Inl e
      | Inr binaryString \<Rightarrow>
          Inr (map (\<lambda>i. of_nat (charCodeAt binaryString i)) [0..<length binaryString]))"

text \<open>
  The encoder of RFC 4648: three bytes give four characters; one or two bytes left at
  the end give two or three characters and \<open>=\<close> up to four.
\<close>

fun base64_encode :: "byte list \<Rightarrow> string" where
  "base64_encode (a # b # c # rest) =
     [base64_char (unat a div 4),
      base64_char (unat a mod 4 * 16 + unat b div 16),
      base64_char (unat b mod 16 * 4 + unat c div 64),
      base64_char (unat c mod 64)] @ base64_encode rest"
| "base64_encode [a, b] =
     [base64_char (unat a div 4),
      base64_char (unat a mod 4 * 16 + unat b div 16),
      base64_char (unat b mod 16 * 4),
      CHR ''='']"
| "base64_encode [a] =
     [base64_char (unat a div 4),
      base64_char (unat a mod 4 * 16),
      CHR ''='', CHR ''='']"
| "base64_encode [] = []"

text \<open>\<open>btoa\<close> takes a binary string; a character code above 255 would raise, and an
  8-bit character has none.\<close>

definition btoa :: "string \<Rightarrow> dom_exception + string" where
  "btoa data = Inr (base64_encode (map (\<lambda>c. of_nat (of_char c)) data))"

text \<open>\<open>encode\<close> of \<open>components/ScriptAssistant.tsx\<close>: \<open>String.fromCharCode\<close> of every
  byte, then \<open>btoa\<close>.\<close>

fun fromCharCodes :: "byte list \<Rightarrow> string \<Rightarrow> string" where
  "fromCharCodes [] binary = binary"
| "fromCharCodes (b # bs) binary = fromCharCodes bs (binary @ [char_of (unat b)])"

definition encode :: "byte list \<Rightarrow> dom_exception + string" where
  "encode bytes = btoa (fromCharCodes bytes [])"

text \<open>The encoding without its padding, for stating what the decoder sees after
  step 2.\<close>

fun base64_unpadded :: "byte list \<Rightarrow> string" where
  "base64_unpadded (a # b # c # rest) =
     [base64_char (unat a div 4),
      base64_char (unat a mod 4 * 16 + unat b div 16),
      base64_char (unat b mod 16 * 4 + unat c div 64),
      base64_char (unat c mod 64)] @ base64_unpadded rest"
| "base64_unpadded [a, b] =
     [base64_char (unat a div 4),
      base64_char (unat a mod 4 * 16 + unat b div 16),
      base64_char (unat b mod 16 * 4)]"
| "base64_unpadded [a] =
     [base64_char (unat a div 4),
      base64_char (unat a mod 4 * 16)]"
| "base64_unpadded [] = []"

fun base64_padding :: "byte list \<Rightarrow> string" where
  "base64_padding (a # b # c # rest) = base64_padding rest"
| "base64_padding [a, b] = ''=''"
| "base64_padding [a] = ''==''"
| "base64_padding [] = []"


section \<open>The still frame of \<open>audioBlobToVideo\<close>: the body text\<close>

text \<open>
  The canvas is the list of the \<open>fillText\<close> calls made on it, in order. \<open>measureText\<close>
  belongs to the browser: it is a parameter, any function from strings to widths.
\<close>

definition width :: nat where
  "width = 1280"

definition height :: nat where
  "height = 720"

definition maxWidth :: nat where
  "maxWidth = width - 120"

definition lineHeight :: nat where
  "lineHeight = 45"

datatype draw_call = FillText (ft_text: string) (ft_x: nat) (ft_y: nat)

text \<open>\<open>text.split(' ')\<close>: one piece per separator plus one, empty pieces kept, so the
  result is never empty.\<close>

fun split_on :: "char \<Rightarrow> string \<Rightarrow> string list" where
  "split_on sep [] = [[]]"
| "split_on sep (c # cs) =
     (if c = sep then [] # split_on sep cs
      else (case split_on sep cs of [] \<Rightarrow> [[c]] | w # ws \<Rightarrow> (c # w) # ws))"

record wrap_state =
  cur_line :: string
  cur_y :: nat
  drawn :: "draw_call list"

text \<open>One pass of the loop body up to the \<open>break\<close> test: \<open>n\<close> is the index of the word.\<close>

definition wrap_step :: "(string \<Rightarrow> real) \<Rightarrow> nat \<Rightarrow> string \<Rightarrow> wrap_state \<Rightarrow> wrap_state" where
  "wrap_step measureText n word st =
     (let testLine = cur_line st @ word @ '' '';
          testWidth = measureText testLine
      in if testWidth > real maxWidth \<and> n > 0
         then st\<lparr>cur_line := word @ '' '',
                 cur_y := cur_y st + lineHeight,
                 drawn := drawn st @ [FillText (cur_line st) 60 (cur_y st)]\<rparr>
         else st\<lparr>cur_line := testLine\<rparr>)"

text \<open>The loop over the words from index \<open>n\<close> on, left by \<open>break\<close> once \<open>y > height - 100\<close>.\<close>

fun wrap_loop :: "(string \<Rightarrow> real) \<Rightarrow> nat \<Rightarrow> string list \<Rightarrow> wrap_state \<Rightarrow> wrap_state" where
  "wrap_loop measureText n [] st = st"
| "wrap_loop measureText n (word # rest) st =
     (let st' = wrap_step measureText n word st
      in if cur_y st' > height - 100 then st' else wrap_loop measureText (n + 1) rest st')"

text \<open>The body text: the loop, then the \<open>fillText\<close> of the line left in the buffer.\<close>

definition draw_body :: "(string \<Rightarrow> real) \<Rightarrow> string \<Rightarrow> draw_call list" where
  "draw_body measureText text =
     (let words = split_on CHR '' '' text;
          st = wrap_loop measureText 0 words
                 \<lparr>cur_line = [], cur_y = height div 2 - 50, drawn = []\<rparr>
      in drawn st @ [FillText (cur_line st) 60 (cur_y st)])"

text \<open>A measurement function for examples: every character 20 pixels wide.\<close>

definition fixed_pitch :: "string \<Rightarrow> real" where
  "fixed_pitch s = 20 * real (length s)"


section \<open>\<open>audioBlobToVideo\<close>: the promise and its event handlers\<close>

text \<open>
  The function draws the frame, creates an object URL for the audio blob, registers
  \<open>oncanplaythrough\<close> and \<open>onerror\<close> on the audio element and returns a pending promise;
  everything else happens in handlers that the browser calls later. The model is the
  state those handlers share and one transition per event. What belongs to the browser
  is a parameter: whether the canvas has a 2d context, whether \<open>video/mp4\<close> can be
  recorded, the text measurement, and the sequence of events.
\<close>

datatype rejection = NoCanvasContext | AudioErrorEvent string

datatype 'a promise = Pending | Resolved 'a | Rejected rejection

datatype handle_state = NotCreated | Live | Released

datatype recorder_state = NoRecorder | Recording | Inactive

datatype media_event =
    CanPlayThrough
  | Ended
  | AudioError string
  | DataAvailable "byte list"
  | RecorderStop

record browser =
  canvas_2d :: bool
  mp4_supported :: bool
  text_measure :: "string \<Rightarrow> real"

record mux_state =
  canvas :: "draw_call list"
  object_url :: handle_state
  listening :: bool
  capturing :: bool
  audio_ctx :: handle_state
  stray_ctxs :: nat
  recorder :: recorder_state
  mimeType :: string
  chunks :: "byte list list"
  onended_set :: bool
  result :: "blob promise"

text \<open>\<open>resolve\<close> and \<open>reject\<close> settle a promise once; later calls change nothing.\<close>

definition settle :: "'a promise \<Rightarrow> 'a promise \<Rightarrow> 'a promise" where
  "settle p v = (case p of Pending \<Rightarrow> v | _ \<Rightarrow> p)"

text \<open>The synchronous part, lines 53-112 and 148: without a 2d context the promise is
  rejected at once and nothing is allocated or registered.\<close>

definition audioBlobToVideo_start :: "browser \<Rightarrow> blob \<Rightarrow> string \<Rightarrow> string \<Rightarrow> mux_state" where
  "audioBlobToVideo_start br audioBlob text voiceName =
     (if \<not> canvas_2d br
      then \<lparr>canvas = [], object_url = NotCreated, listening = False, capturing = False,
            audio_ctx = NotCreated, stray_ctxs = 0, recorder = NoRecorder, mimeType = [],
            chunks = [], onended_set = False, result = Rejected NoCanvasContext\<rparr>
      else \<lparr>canvas = [FillText ''VOXGEM AI'' 60 60, FillText (''Voice: '' @ voiceName) 60 90]
                       @ draw_body (text_measure br) text,
            object_url = Live, listening = True, capturing = False,
            audio_ctx = NotCreated, stray_ctxs = 0, recorder = NoRecorder, mimeType = [],
            chunks = [], onended_set = False, result = Pending\<rparr>)"

text \<open>
  The handlers. \<open>oncanplaythrough\<close> starts the canvas capture, opens the audio context,
  starts the recorder and installs \<open>onended\<close>; should the event fire again, the capture
  and a further context are created before \<open>createMediaElementSource\<close> raises on the
  element that already has a source node, and the handler ends there. \<open>onended\<close> stops
  the recorder and closes the context. \<open>onerror\<close> is \<open>reject(e)\<close> and nothing else.
  \<open>ondataavailable\<close> collects a chunk; \<open>onstop\<close> resolves with the chunks and revokes
  the object URL.
\<close>

fun handle :: "browser \<Rightarrow> media_event \<Rightarrow> mux_state \<Rightarrow> mux_state" where
  "handle br CanPlayThrough s =
     (if \<not> listening s then s
      else if audio_ctx s \<noteq> NotCreated
      then s\<lparr>capturing := True, stray_ctxs := stray_ctxs s + 1\<rparr>
      else s\<lparr>capturing := True, audio_ctx := Live, recorder := Recording,
             mimeType := (if mp4_supported br then ''video/mp4'' else ''video/webm''),
             chunks := [], onended_set := True\<rparr>)"
| "handle br Ended s =
     (if onended_set s
      then s\<lparr>recorder := (if recorder s = Recording then Inactive else recorder s),
             audio_ctx := Released\<rparr>
      else s)"
| "handle br (AudioError e) s =
     (if listening s then s\<lparr>result := settle (result s) (Rejected (AudioErrorEvent e))\<rparr>
      else s)"
| "handle br (DataAvailable d) s =
     (if recorder s = NoRecorder then s else s\<lparr>chunks := chunks s @ [d]\<rparr>)"
| "handle br RecorderStop s =
     (if recorder s = NoRecorder then s
      else s\<lparr>result := settle (result s)
                  (Resolved \<lparr>blob_bytes = concat (chunks s), blob_type = mimeType s\<rparr>),
             object_url := Released\<rparr>)"

fun run :: "browser \<Rightarrow> media_event list \<Rightarrow> mux_state \<Rightarrow> mux_state" where
  "run br [] s = s"
| "run br (ev # evs) s = run br evs (handle br ev s)"

text \<open>What the caller's \<open>await\<close> sees once the events have happened.\<close>

definition audioBlobToVideo ::
  "browser \<Rightarrow> media_event list \<Rightarrow> blob \<Rightarrow> string \<Rightarrow> string \<Rightarrow> blob promise" where
  "audioBlobToVideo br events audioBlob text voiceName =
     result (run br events (audioBlobToVideo_start br audioBlob text voiceName))"

text \<open>A browser and a blob for examples.\<close>

definition example_browser :: browser where
  "example_browser = \<lparr>canvas_2d = True, mp4_supported = True, text_measure = fixed_pitch\<rparr>"

definition example_wav :: blob where
  "example_wav = \<lparr>blob_bytes = wav_header 2 24000 @ [1, 2], blob_type = ''audio/wav''\<rparr>"


section \<open>\<open>handleExportAll\<close> of \<open>App.tsx\<close>\<close>

text \<open>
  A \<open>Generation\<close> record (the fields \<open>id\<close>, \<open>text\<close> and \<open>blob\<close> carry the prefix \<open>gen_\<close>).
\<close>

record generation =
  gen_id :: string
  gen_text :: string
  voiceId :: string
  timestamp :: nat
  audioUrl :: string
  gen_blob :: blob

text \<open>
  The archive under construction is the table of entries of the \<open>JSZip\<close> object, in
  insertion order. \<open>folder(name)\<close> adds the directory entry \<open>name/\<close> unless it is there;
  \<open>file(name, data)\<close> adds the entry or replaces the data of an entry of that name.
  (Directory entries that the library adds for a \<open>/\<close> inside a file name are not
  recorded.)
\<close>

datatype zip_entry = Folder | File blob | TextFile string

type_synonym archive = "(string \<times> zip_entry) list"

definition zip_folder :: "string \<Rightarrow> archive \<Rightarrow> archive" where
  "zip_folder name z =
     (case map_of z (name @ ''/'') of
        None \<Rightarrow> z @ [(name @ ''/'', Folder)]
      | Some e \<Rightarrow> z)"

definition zip_file :: "string \<Rightarrow> zip_entry \<Rightarrow> archive \<Rightarrow> archive" where
  "zip_file name e z = AList.update name e z"

text \<open>A template literal prints a non-negative integer in decimal.\<close>

fun decimal :: "nat \<Rightarrow> string" where
  "decimal n =
     (if n < 10 then [char_of (48 + n)]
      else decimal (n div 10) @ [char_of (48 + n mod 10)])"

text \<open>\<open>String.prototype.includes\<close>.\<close>

fun string_includes :: "string \<Rightarrow> string \<Rightarrow> bool" where
  "string_includes [] t = (t = [])"
| "string_includes (c # cs) t = (take (length t) (c # cs) = t \<or> string_includes cs t)"

text \<open>\<open>voiceId.replace(/[^a-z0-9]/gi, '_')\<close>: every character that is not an ASCII
  letter or digit becomes an underscore.\<close>

definition alphanumeric :: "char \<Rightarrow> bool" where
  "alphanumeric c =
     (let n = (of_char c :: nat)
      in (48 \<le> n \<and> n \<le> 57) \<or> (65 \<le> n \<and> n \<le> 90) \<or> (97 \<le> n \<and> n \<le> 122))"

definition safeName :: "generation \<Rightarrow> string" where
  "safeName gen = map (\<lambda>c. if alphanumeric c then c else CHR ''_'') (voiceId gen)"

definition baseFilename :: "nat \<Rightarrow> generation \<Rightarrow> string" where
  "baseFilename i gen = decimal (i + 1) @ ''_'' @ safeName gen @ ''_'' @ take 8 (gen_id gen)"

text \<open>
  What the handler reads from outside: the browser, the events it delivers during the
  \<open>i\<close>-th call of \<open>audioBlobToVideo\<close>, the clock at the start and at the end, and the
  locale's date format.
\<close>

record export_env =
  env_browser :: browser
  media_events :: "nat \<Rightarrow> media_event list"
  clock_start :: nat
  clock_end :: nat
  toLocaleString :: "nat \<Rightarrow> string"

text \<open>The component state the handler changes, the toasts shown, the archives
  generated and the downloads offered; \<open>video_calls\<close> counts the calls of
  \<open>audioBlobToVideo\<close>.\<close>

record app_state =
  isExporting :: bool
  exportProgress :: "nat \<times> nat"
  toasts :: "(string \<times> string) list"
  generated :: "archive list"
  downloads :: "(string \<times> archive) list"
  video_calls :: nat

definition showToast :: "string \<Rightarrow> string \<Rightarrow> app_state \<Rightarrow> app_state" where
  "showToast message type st = st\<lparr>toasts := toasts st @ [(message, type)]\<rparr>"

definition derive_video :: "export_env \<Rightarrow> nat \<Rightarrow> generation \<Rightarrow> blob promise" where
  "derive_video env i gen =
     audioBlobToVideo (env_browser env) (media_events env i) (gen_blob gen) (gen_text gen)
       (voiceId gen)"

definition manifest_item :: "export_env \<Rightarrow> nat \<Rightarrow> generation \<Rightarrow> string \<Rightarrow> string" where
  "manifest_item env i gen ext =
     ''[Item '' @ decimal (i + 1) @ '']\<newline>Voice: '' @ voiceId gen
     @ ''\<newline>Date: '' @ toLocaleString env (timestamp gen)
     @ ''\<newline>Text: '' @ gen_text gen
     @ ''\<newline>Files: '' @ baseFilename i gen @ ''.wav, '' @ baseFilename i gen @ ''.'' @ ext
     @ ''\<newline>\<newline>''"

text \<open>
  The \<open>for\<close> loop from index \<open>i\<close> on. An \<open>await\<close> on a promise that is rejected throws
  (\<open>Failed\<close>); on one that never settles the handler never resumes (\<open>Suspended\<close>).
\<close>

datatype export_outcome = Completed | Failed rejection | Suspended

record loop_state =
  ls_zip :: archive
  ls_manifest :: string
  ls_app :: app_state

fun export_loop ::
  "export_env \<Rightarrow> nat \<Rightarrow> generation list \<Rightarrow> loop_state \<Rightarrow> export_outcome \<times> loop_state" where
  "export_loop env i [] st = (Completed, st)"
| "export_loop env i (gen # rest) st =
     (let zip1 = zip_file (''wav_audio/'' @ baseFilename i gen @ ''.wav'') (File (gen_blob gen))
                   (ls_zip st);
          app1 = (ls_app st)\<lparr>video_calls := video_calls (ls_app st) + 1\<rparr>
      in case derive_video env i gen of
           Pending \<Rightarrow> (Suspended, st\<lparr>ls_zip := zip1, ls_app := app1\<rparr>)
         | Rejected r \<Rightarrow> (Failed r, st\<lparr>ls_zip := zip1, ls_app := app1\<rparr>)
         | Resolved mp4Blob \<Rightarrow>
             (let ext = (if string_includes (blob_type mp4Blob) ''mp4'' then ''mp4'' else ''webm'');
                  zip2 = zip_file (''mp4_video/'' @ baseFilename i gen @ ''.'' @ ext)
                           (File mp4Blob) zip1;
                  manifest = ls_manifest st @ manifest_item env i gen ext;
                  app2 = app1\<lparr>exportProgress := (i + 1, snd (exportProgress app1))\<rparr>
              in export_loop env (i + 1) rest
                   \<lparr>ls_zip = zip2, ls_manifest = manifest, ls_app = app2\<rparr>))"

text \<open>The \<open>finally\<close> block.\<close>

definition export_finally :: "app_state \<Rightarrow> app_state" where
  "export_finally st = st\<lparr>isExporting := False, exportProgress := (0, 0)\<rparr>"

definition handleExportAll :: "export_env \<Rightarrow> generation list \<Rightarrow> app_state \<Rightarrow> app_state" where
  "handleExportAll env history st =
     (if length history = 0 then st
      else
        (let st1 = st\<lparr>isExporting := True, exportProgress := (0, length history)\<rparr>;
             zip0 = zip_folder ''mp4_video'' (zip_folder ''wav_audio'' []);
             manifest0 = ''VoxGem AI Voiceover Export\<newline>Generated: ''
                           @ toLocaleString env (clock_start env) @ ''\<newline>\<newline>''
         in case export_loop env 0 history
                   \<lparr>ls_zip = zip0, ls_manifest = manifest0, ls_app = st1\<rparr> of
              (Suspended, ls) \<Rightarrow> ls_app ls
            | (Failed r, ls) \<Rightarrow>
                export_finally
                  (showToast ''Bulk export failed during video synthesis.'' ''error'' (ls_app ls))
            | (Completed, ls) \<Rightarrow>
                (let content = zip_file ''manifest.txt'' (TextFile (ls_manifest ls)) (ls_zip ls);
                     download = ''voxgem-studio-export-'' @ decimal (clock_end env) @ ''.zip'';
                     st2 = (ls_app ls)\<lparr>generated := generated (ls_app ls) @ [content],
                                        downloads := downloads (ls_app ls) @ [(download, content)]\<rparr>
                 in export_finally (showToast ''Studio bundle export completed.'' ''success'' st2))))"

text \<open>The entries of an archive that are files, and those in one of its folders.\<close>

definition file_entries :: "archive \<Rightarrow> archive" where
  "file_entries z = filter (\<lambda>p. snd p \<noteq> Folder) z"

definition entries_in :: "string \<Rightarrow> archive \<Rightarrow> archive" where
  "entries_in folder z = filter (\<lambda>p. snd p \<noteq> Folder \<and> prefix (folder @ ''/'') (fst p)) z"

text \<open>An environment, a history and a state for examples: the first record's audio
  plays to its end, the second's fails to load.\<close>

definition example_env :: export_env where
  "example_env =
     \<lparr>env_browser = example_browser,
      media_events = (\<lambda>i. if i = 0 then [CanPlayThrough, DataAvailable [7], Ended, RecorderStop]
                           else [AudioError ''decode'']),
      clock_start = 0, clock_end = 5, toLocaleString = decimal\<rparr>"

definition example_generation :: generation where
  "example_generation =
     \<lparr>gen_id = ''0123abcd-9999'', gen_text = ''hello'', voiceId = ''Kore (1x)'', timestamp = 3,
      audioUrl = ''blob:1'', gen_blob = example_wav\<rparr>"

definition initial_app :: app_state where
  "initial_app = \<lparr>isExporting = False, exportProgress = (0, 0), toasts = [], generated = [],
     downloads = [], video_calls = 0\<rparr>"


section \<open>The WAV encoder\<close>

lemma list_update_Cons_numeral:
  "(x # xs)[numeral v := y] = x # xs[numeral v - 1 := y]"
  by (simp add: numeral_eq_Suc)

lemma replicate_44_add:
  "replicate (44 + n) (0::byte) =
     [0,0,0,0,0,0,0,0,0,0,0,0,0,0,0,0,0,0,0,0,0,0,
      0,0,0,0,0,0,0,0,0,0,0,0,0,0,0,0,0,0,0,0,0,0] @ replicate n 0"
  unfolding replicate_add by (simp add: numeral_eq_Suc)

lemma pcmToWav_bytes:
  "pcmToWav pcm r =
     Some \<lparr>blob_bytes = wav_header (length pcm) r @ pcm, blob_type = ''audio/wav''\<rparr>"
  unfolding pcmToWav_def Let_def replicate_44_add
  by (simp add: writeString_def setUint8_def setUint16_def setUint32_def uint8_set_def
      wav_header_def le16_def le32_def ascii_def list_update_Cons_numeral)

lemma length_le16: "length (le16 v) = 2"
  by (simp add: le16_def)

lemma length_le32: "length (le32 v) = 4"
  by (simp add: le32_def)

lemma length_ascii: "length (ascii s) = length s"
  by (simp add: ascii_def)

lemma length_wav_header: "length (wav_header n r) = 44"
  by (simp add: wav_header_def length_le16 length_le32 length_ascii)

lemma le16_value: "v mod 256 + 256 * (v div 256 mod 256) = v mod 65536" for v :: nat
  using mod_mult2_eq[of v 256 256] by simp

lemma le32_value:
  "v mod 256 + 256 * (v div 256 mod 256) + 65536 * (v div 65536 mod 256)
     + 16777216 * (v div 16777216 mod 256) = v mod 4294967296" for v :: nat
  using mod_mult2_eq[of v 256 256] mod_mult2_eq[of v 65536 256]
    mod_mult2_eq[of v 16777216 256]
  by simp

lemma unat_byte_of_nat: "unat (of_nat v :: byte) = v mod 256"
  by (simp add: unat_of_nat)

lemma getUint16_le16: "getUint16 0 (le16 v @ rest) = v mod 65536"
  by (simp add: getUint16_def le16_def unat_byte_of_nat le16_value)

lemma getUint32_le32: "getUint32 0 (le32 v @ rest) = v mod 4294967296"
  by (simp add: getUint32_def le32_def unat_byte_of_nat le32_value)

lemma getUint16_drop:
  "off + 1 < length bs \<Longrightarrow> getUint16 off bs = getUint16 0 (drop off bs)"
  by (simp add: getUint16_def)

lemma getUint32_drop:
  "off + 3 < length bs \<Longrightarrow> getUint32 off bs = getUint32 0 (drop off bs)"
  by (simp add: getUint32_def)

lemma tag_at_ascii:
  "length s = 4 \<Longrightarrow> tag_at 0 (ascii s @ rest) = s"
  by (simp add: tag_at_def ascii_def unat_byte_of_nat comp_def)

lemma tag_at_drop: "tag_at off bs = tag_at 0 (drop off bs)"
  by (simp add: tag_at_def)

lemma header_fields:
  "tag_at 0 (wav_header n r @ pcm) = ''RIFF''"
  "getUint32 4 (wav_header n r @ pcm) = (36 + n) mod 4294967296"
  "tag_at 8 (wav_header n r @ pcm) = ''WAVE''"
  "tag_at 12 (wav_header n r @ pcm) = ''fmt ''"
  "getUint32 16 (wav_header n r @ pcm) = 16"
  "getUint16 20 (wav_header n r @ pcm) = 1"
  "getUint16 22 (wav_header n r @ pcm) = 1"
  "getUint32 24 (wav_header n r @ pcm) = r mod 4294967296"
  "getUint32 28 (wav_header n r @ pcm) = (r * 2) mod 4294967296"
  "getUint16 32 (wav_header n r @ pcm) = 2"
  "getUint16 34 (wav_header n r @ pcm) = 16"
  "tag_at 36 (wav_header n r @ pcm) = ''data''"
  "getUint32 40 (wav_header n r @ pcm) = n mod 4294967296"
  "drop 44 (wav_header n r @ pcm) = pcm"
proof -
  have len: "length (wav_header n r @ pcm) = 44 + length pcm"
    by (simp add: length_wav_header)
  note unfold = wav_header_def length_le16 length_le32 length_ascii
  show "tag_at 0 (wav_header n r @ pcm) = ''RIFF''"
    by (simp add: wav_header_def tag_at_ascii)
  show "getUint32 4 (wav_header n r @ pcm) = (36 + n) mod 4294967296"
    using getUint32_drop[of 4 "wav_header n r @ pcm"]
    by (simp add: unfold getUint32_le32)
  show "tag_at 8 (wav_header n r @ pcm) = ''WAVE''"
    by (subst tag_at_drop) (simp add: unfold tag_at_ascii)
  show "tag_at 12 (wav_header n r @ pcm) = ''fmt ''"
    by (subst tag_at_drop) (simp add: unfold tag_at_ascii)
  show "getUint32 16 (wav_header n r @ pcm) = 16"
    using getUint32_drop[of 16 "wav_header n r @ pcm"]
    by (simp add: unfold getUint32_le32)
  show "getUint16 20 (wav_header n r @ pcm) = 1"
    using getUint16_drop[of 20 "wav_header n r @ pcm"]
    by (simp add: unfold getUint16_le16)
  show "getUint16 22 (wav_header n r @ pcm) = 1"
    using getUint16_drop[of 22 "wav_header n r @ pcm"]
    by (simp add: unfold getUint16_le16)
  show "getUint32 24 (wav_header n r @ pcm) = r mod 4294967296"
    using getUint32_drop[of 24 "wav_header n r @ pcm"]
    by (simp add: unfold getUint32_le32)
  show "getUint32 28 (wav_header n r @ pcm) = (r * 2) mod 4294967296"
    using getUint32_drop[of 28 "wav_header n r @ pcm"]
    by (simp add: unfold getUint32_le32)
  show "getUint16 32 (wav_header n r @ pcm) = 2"
    using getUint16_drop[of 32 "wav_header n r @ pcm"]
    by (simp add: unfold getUint16_le16)
  show "getUint16 34 (wav_header n r @ pcm) = 16"
    using getUint16_drop[of 34 "wav_header n r @ pcm"]
    by (simp add: unfold getUint16_le16)
  show "tag_at 36 (wav_header n r @ pcm) = ''data''"
    by (subst tag_at_drop) (simp add: unfold tag_at_ascii)
  show "getUint32 40 (wav_header n r @ pcm) = n mod 4294967296"
    using getUint32_drop[of 40 "wav_header n r @ pcm"]
    by (simp add: unfold getUint32_le32)
  show "drop 44 (wav_header n r @ pcm) = pcm"
    by (simp add: length_wav_header)
qed

text \<open>
  Claim C1, as amended. For every PCM byte sequence of length \<open>n\<close> with \<open>36 + n < 2^32\<close>
  and every sample rate \<open>r\<close> with \<open>2 * r < 2^32\<close>, \<open>pcmToWav\<close> returns a blob of type
  \<open>audio/wav\<close> of exactly \<open>44 + n\<close> bytes: the tag \<open>RIFF\<close>, bytes 4-7 holding \<open>36 + n\<close>,
  the tags \<open>WAVE\<close> and \<open>fmt \<close>, the sub-chunk size 16, format code 1, channel count 1,
  sample rate \<open>r\<close>, byte rate \<open>r * 2\<close>, block align 2, bits per sample 16, the tag
  \<open>data\<close>, bytes 40-43 holding \<open>n\<close>, every integer little-endian, and from byte 44 on the
  input copied verbatim. (\<open>n = 0\<close> gives the 44 header bytes alone.)
\<close>

theorem pcmToWav_layout:
  assumes "36 + length pcmData < 4294967296" and "sampleRate * 2 < 4294967296"
  shows "\<exists>wav. pcmToWav pcmData sampleRate = Some wav
     \<and> blob_type wav = ''audio/wav''
     \<and> length (blob_bytes wav) = 44 + length pcmData
     \<and> tag_at 0 (blob_bytes wav) = ''RIFF''
     \<and> getUint32 4 (blob_bytes wav) = 36 + length pcmData
     \<and> tag_at 8 (blob_bytes wav) = ''WAVE''
     \<and> tag_at 12 (blob_bytes wav) = ''fmt ''
     \<and> getUint32 16 (blob_bytes wav) = 16
     \<and> getUint16 20 (blob_bytes wav) = 1
     \<and> getUint16 22 (blob_bytes wav) = 1
     \<and> getUint32 24 (blob_bytes wav) = sampleRate
     \<and> getUint32 28 (blob_bytes wav) = sampleRate * 2
     \<and> getUint16 32 (blob_bytes wav) = 2
     \<and> getUint16 34 (blob_bytes wav) = 16
     \<and> tag_at 36 (blob_bytes wav) = ''data''
     \<and> getUint32 40 (blob_bytes wav) = length pcmData
     \<and> drop 44 (blob_bytes wav) = pcmData"
proof -
  from assms have small: "length pcmData < 4294967296" "sampleRate < 4294967296"
    by simp_all
  show ?thesis
    unfolding pcmToWav_bytes using assms small
    by (simp add: header_fields length_wav_header)
qed

theorem pcmToWav_layout_witness:
  "pcmToWav [0x01, 0x02] 24000 = Some \<lparr>blob_bytes =
      [0x52, 0x49, 0x46, 0x46, 38, 0, 0, 0, 0x57, 0x41, 0x56, 0x45, 0x66, 0x6D, 0x74, 0x20,
       16, 0, 0, 0, 1, 0, 1, 0, 0xC0, 0x5D, 0, 0, 0x80, 0xBB, 0, 0, 2, 0, 16, 0,
       0x64, 0x61, 0x74, 0x61, 2, 0, 0, 0, 0x01, 0x02], blob_type = ''audio/wav''\<rparr>
   \<and> getUint32 24 (blob_bytes (the (pcmToWav [0x01, 0x02] 24000))) = 24000"
  using pcmToWav_layout[of "[0x01, 0x02]" 24000]
  by (auto simp add: pcmToWav_bytes wav_header_def le16_def le32_def ascii_def)

text \<open>
  Claim C1 as stated, for every sample rate \<open>r > 0\<close>, fails: the sample-rate field is
  32 bits wide and \<open>setUint32\<close> stores the rate modulo \<open>2^32\<close>. At \<open>r = 2^32\<close> and an
  empty payload, bytes 24-27 (and the byte rate in bytes 28-31) are zero.
\<close>

theorem pcmToWav_rate_wraps:
  "pcmToWav [] 4294967296 = Some \<lparr>blob_bytes =
      [0x52, 0x49, 0x46, 0x46, 36, 0, 0, 0, 0x57, 0x41, 0x56, 0x45, 0x66, 0x6D, 0x74, 0x20,
       16, 0, 0, 0, 1, 0, 1, 0, 0, 0, 0, 0, 0, 0, 0, 0, 2, 0, 16, 0,
       0x64, 0x61, 0x74, 0x61, 0, 0, 0, 0], blob_type = ''audio/wav''\<rparr>
   \<and> getUint32 24 (blob_bytes (the (pcmToWav [] 4294967296))) = 0"
  by (simp add: pcmToWav_bytes wav_header_def le16_def le32_def ascii_def getUint32_def)

text \<open>
  Claim C9. \<open>pcmToWav\<close> is deterministic: two calls with the same bytes and the same
  sample rate both return, and return the same blob. (The function reads nothing but
  its two arguments; every byte of the fresh buffer is a function of them, as
  \<open>pcmToWav_bytes\<close> shows.)
\<close>

theorem pcmToWav_deterministic:
  assumes "pcmData1 = pcmData2" and "sampleRate1 = sampleRate2"
  shows "pcmToWav pcmData1 sampleRate1 = pcmToWav pcmData2 sampleRate2
     \<and> pcmToWav pcmData1 sampleRate1 \<noteq> None"
  using assms by (simp add: pcmToWav_bytes)

theorem pcmToWav_deterministic_witness:
  "pcmToWav [7, 9] 24000 = pcmToWav [7, 9] 24000 \<and> pcmToWav [7, 9] 24000 \<noteq> None"
  using pcmToWav_deterministic[of "[7, 9]" "[7, 9]" 24000 24000] by simp

section \<open>Base64\<close>

lemma position_None_iff: "position c xs = None \<longleftrightarrow> c \<notin> set xs"
  by (induction xs) auto

lemma position_nth: "distinct xs \<Longrightarrow> n < length xs \<Longrightarrow> position (xs ! n) xs = Some n"
proof (induction xs arbitrary: n)
  case Nil
  then show ?case by simp
next
  case (Cons x xs)
  then show ?case by (cases n) auto
qed

lemma length_base64_alphabet: "length base64_alphabet = 64"
  by (simp add: base64_alphabet_def)

lemma distinct_base64_alphabet: "distinct base64_alphabet"
  by (simp add: base64_alphabet_def)

lemma base64_value_char: "n < 64 \<Longrightarrow> base64_value (base64_char n) = Some n"
  by (simp add: base64_value_def base64_char_def position_nth distinct_base64_alphabet
      length_base64_alphabet)

lemma base64_char_in_alphabet: "n < 64 \<Longrightarrow> base64_char n \<in> set base64_alphabet"
  by (simp add: base64_char_def length_base64_alphabet)

lemma base64_value_None_iff: "base64_value c = None \<longleftrightarrow> c \<notin> set base64_alphabet"
  by (simp add: base64_value_def position_None_iff)

lemma equals_not_in_alphabet: "CHR ''='' \<notin> set base64_alphabet"
  by (simp add: base64_alphabet_def)

lemma alphabet_not_whitespace: "c \<in> set base64_alphabet \<Longrightarrow> \<not> ascii_whitespace c"
  by (auto simp add: base64_alphabet_def ascii_whitespace_def)

lemma equals_not_whitespace: "\<not> ascii_whitespace CHR ''=''"
  by (simp add: ascii_whitespace_def)

text \<open>After step 4 the loop cannot fail.\<close>

lemma decode_loop_total:
  "set d \<subseteq> set base64_alphabet \<Longrightarrow> \<exists>bytes. decode_loop d buffer bits out = Inr bytes"
proof (induction d arbitrary: buffer bits out)
  case Nil
  then show ?case by simp
next
  case (Cons c cs)
  then obtain n where "base64_value c = Some n"
    using base64_value_None_iff[of c] by auto
  with Cons show ?case by (simp add: Let_def)
qed

lemma byte_of_unat: "of_nat (unat w mod 256) = w" for w :: byte
  using unsigned_less[of w, where ?'a = nat] by simp

lemma binary_string_bytes:
  "map (\<lambda>i. of_nat (charCodeAt (map (\<lambda>b. char_of (unat b)) bytes) i) :: byte)
     [0..<length bytes] = bytes"
  by (rule nth_equalityI) (simp_all add: charCodeAt_def byte_of_unat)

lemma decodeBase64_forgiving: "decodeBase64 base64 = forgiving_base64_decode base64"
  by (cases "forgiving_base64_decode base64")
    (simp_all add: decodeBase64_def atob_def binary_string_bytes)

text \<open>
  Claim C5, as amended. Let \<open>d\<close> be the input with ASCII whitespace removed and, when the
  length of what remains is a multiple of 4, one or two trailing \<open>=\<close> removed.
  \<open>decodeBase64\<close> fails (with \<open>InvalidCharacterError\<close>) if and only if the length of \<open>d\<close>
  leaves remainder 1 modulo 4 or \<open>d\<close> contains a character outside the 64 characters of
  the base64 alphabet; in every other case it succeeds and returns the bytes decoded
  from \<open>d\<close>.
\<close>

theorem decodeBase64_fails_iff:
  "(decodeBase64 base64 = Inl InvalidCharacterError)
     = (length (strip_padding (filter (\<lambda>c. \<not> ascii_whitespace c) base64)) mod 4 = 1
        \<or> (\<exists>c\<in>set (strip_padding (filter (\<lambda>c. \<not> ascii_whitespace c) base64)).
              c \<notin> set base64_alphabet))
   \<and> (\<exists>bytes. decodeBase64 base64 = Inr bytes)
     = (\<not> (length (strip_padding (filter (\<lambda>c. \<not> ascii_whitespace c) base64)) mod 4 = 1
        \<or> (\<exists>c\<in>set (strip_padding (filter (\<lambda>c. \<not> ascii_whitespace c) base64)).
              c \<notin> set base64_alphabet)))
   \<and> decodeBase64 base64 = forgiving_base64_decode base64"
proof -
  let ?d = "strip_padding (filter (\<lambda>c. \<not> ascii_whitespace c) base64)"
  show ?thesis
  proof (cases "length ?d mod 4 = 1 \<or> (\<exists>c\<in>set ?d. c \<notin> set base64_alphabet)")
    case True
    then have "forgiving_base64_decode base64 = Inl InvalidCharacterError"
      by (auto simp add: forgiving_base64_decode_def Let_def)
    with True show ?thesis by (simp add: decodeBase64_forgiving)
  next
    case False
    then have "set ?d \<subseteq> set base64_alphabet" by auto
    then obtain bytes where "decode_loop ?d 0 0 [] = Inr bytes"
      using decode_loop_total by blast
    with False have "forgiving_base64_decode base64 = Inr bytes"
      by (auto simp add: forgiving_base64_decode_def Let_def)
    with False show ?thesis by (simp add: decodeBase64_forgiving)
  qed
qed

theorem decodeBase64_fails_iff_witness:
  "decodeBase64 ''QUI='' = Inr [0x41, 0x42]
   \<and> strip_padding (filter (\<lambda>c. \<not> ascii_whitespace c) ''QUI='') = ''QUI''
   \<and> decodeBase64 ''QU*='' = Inl InvalidCharacterError"
  using decodeBase64_fails_iff[of "''QUI=''"] decodeBase64_fails_iff[of "''QU*=''"]
  by (simp add: forgiving_base64_decode_def strip_padding_def ends_with_def
      ascii_whitespace_def base64_value_def base64_alphabet_def Let_def)

text \<open>
  Claim C5 as stated fails: the one-character input \<open>A\<close> lies in the base64 alphabet,
  and \<open>atob\<close> rejects it, a length of 1 modulo 4 being no base64 text.
\<close>

theorem decodeBase64_single_character:
  "decodeBase64 ''A'' = Inl InvalidCharacterError \<and> CHR ''A'' \<in> set base64_alphabet"
  by (simp add: decodeBase64_forgiving forgiving_base64_decode_def strip_padding_def
      ends_with_def ascii_whitespace_def base64_alphabet_def Let_def)

lemma unat_byte_less: "unat w < 256" for w :: byte
  using unsigned_less[of w, where ?'a = nat] by simp

lemma sextet_bounds:
  "x < 256 \<Longrightarrow> x div 4 < 64"
  "y < 256 \<Longrightarrow> x mod 4 * 16 + y div 16 < 64"
  "z < 256 \<Longrightarrow> y mod 16 * 4 + z div 64 < 64"
  "z mod 64 < 64"
  "x mod 4 * 16 < 64"
  "y mod 16 * 4 < 64"
  for x y z :: nat
  by simp_all

lemma base64_encode_split: "base64_encode bs = base64_unpadded bs @ base64_padding bs"
  by (induction bs rule: base64_encode.induct) simp_all

lemma base64_padding_cases:
  "base64_padding bs = [] \<or> base64_padding bs = ''='' \<or> base64_padding bs = ''==''"
  by (induction bs rule: base64_padding.induct) simp_all

lemma base64_unpadded_alphabet: "set (base64_unpadded bs) \<subseteq> set base64_alphabet"
  by (induction bs rule: base64_unpadded.induct)
    (simp_all add: base64_char_in_alphabet sextet_bounds unat_byte_less)

lemma length_base64_encode: "length (base64_encode bs) mod 4 = 0"
  by (induction bs rule: base64_encode.induct) simp_all

lemma length_base64_unpadded: "length (base64_unpadded bs) mod 4 \<noteq> 1"
  by (induction bs rule: base64_unpadded.induct) simp_all

lemma ends_with_suffix: "ends_with d s = suffix s d"
  by (metis ends_with_def suffix_drop suffix_length_le suffix_take append_take_drop_id
      append_eq_conv_conj diff_diff_cancel length_drop suffix_def)

lemma strip_padding_append:
  assumes "length (u @ p) mod 4 = 0" and "CHR ''='' \<notin> set u"
    and "p = [] \<or> p = ''='' \<or> p = ''==''"
  shows "strip_padding (u @ p) = u"
proof -
  have no1: "\<not> suffix ''='' u" and no2: "\<not> suffix ''=='' u"
    using assms(2) set_mono_suffix[of "''=''" u] set_mono_suffix[of "''==''" u] by auto
  from assms(3) consider "p = []" | "p = ''=''" | "p = ''==''" by blast
  then show ?thesis
  proof cases
    case 1
    then show ?thesis using no1 no2 by (simp add: strip_padding_def ends_with_suffix)
  next
    case 2
    have "suffix ''=='' (u @ ''='') = suffix ''='' u"
      using snoc_suffix_snoc[of "''=''" "CHR ''=''" u "CHR ''=''"] by simp
    moreover have "suffix ''='' (u @ ''='')"
      by (simp add: suffix_def)
    ultimately show ?thesis
      using 2 no1 assms(1) by (simp add: strip_padding_def ends_with_suffix)
  next
    case 3
    have "suffix ''=='' (u @ ''=='')"
      by (simp add: suffix_def)
    then show ?thesis
      using 3 assms(1) by (simp add: strip_padding_def ends_with_suffix)
  qed
qed

lemma strip_padding_encode: "strip_padding (base64_encode bs) = base64_unpadded bs"
  unfolding base64_encode_split
proof (rule strip_padding_append)
  show "length (base64_unpadded bs @ base64_padding bs) mod 4 = 0"
    using length_base64_encode[of bs] by (simp add: base64_encode_split)
  show "CHR ''='' \<notin> set (base64_unpadded bs)"
    using base64_unpadded_alphabet[of bs] equals_not_in_alphabet by blast
  show "base64_padding bs = [] \<or> base64_padding bs = ''='' \<or> base64_padding bs = ''==''"
    by (rule base64_padding_cases)
qed

lemma base64_encode_no_whitespace:
  "filter (\<lambda>c. \<not> ascii_whitespace c) (base64_encode bs) = base64_encode bs"
proof -
  have "\<forall>c\<in>set (base64_encode bs). \<not> ascii_whitespace c"
    using base64_unpadded_alphabet[of bs] base64_padding_cases[of bs]
      alphabet_not_whitespace equals_not_whitespace
    by (auto simp add: base64_encode_split)
  then show ?thesis by simp
qed

text \<open>Four sextets back to three bytes.\<close>

lemma quad_value_parts:
  fixes qx rx qy ry qz rz :: nat
  assumes "rx < 4" "ry < 16" "rz < 64"
  shows "(((qx * 4 + rx) div 4 * 64 + ((qx * 4 + rx) mod 4 * 16 + (qy * 16 + ry) div 16)) * 64
            + ((qy * 16 + ry) mod 16 * 4 + (qz * 64 + rz) div 64)) * 64
           + (qz * 64 + rz) mod 64
         = (qx * 4 + rx) * 65536 + (qy * 16 + ry) * 256 + (qz * 64 + rz)"
  using assms by (simp add: algebra_simps)

lemma quad_value:
  fixes x y z :: nat
  shows "((x div 4 * 64 + (x mod 4 * 16 + y div 16)) * 64 + (y mod 16 * 4 + z div 64)) * 64
           + z mod 64 = x * 65536 + y * 256 + z"
  using quad_value_parts[of "x mod 4" "y mod 16" "z mod 64" "x div 4" "y div 16" "z div 64"]
  by simp

lemma decode_quad:
  fixes x y z :: nat
  assumes "y < 256" "z < 256"
  shows "(x * 65536 + y * 256 + z) div 65536 = x"
    and "(x * 65536 + y * 256 + z) div 256 mod 256 = y"
    and "(x * 65536 + y * 256 + z) mod 256 = z"
proof -
  have e: "x * 65536 + y * 256 + z = (x * 256 + y) * 256 + z"
    by simp
  show "(x * 65536 + y * 256 + z) div 65536 = x"
    using assms by simp
  have "((x * 256 + y) * 256 + z) div 256 = x * 256 + y"
    using assms by simp
  then have "(x * 65536 + y * 256 + z) div 256 = x * 256 + y"
    by (simp only: e)
  then show "(x * 65536 + y * 256 + z) div 256 mod 256 = y"
    using assms by simp
  have "((x * 256 + y) * 256 + z) mod 256 = z mod 256"
    by (rule mod_mult_self3)
  then have "((x * 256 + y) * 256 + z) mod 256 = z"
    using assms by (simp only: mod_less)
  then show "(x * 65536 + y * 256 + z) mod 256 = z"
    by (simp only: e)
qed

lemma decode_loop_quad:
  assumes "n0 < 64" "n1 < 64" "n2 < 64" "n3 < 64"
  shows "decode_loop (base64_char n0 # base64_char n1 # base64_char n2 # base64_char n3 # cs)
           0 0 out
         = decode_loop cs 0 0
             (out @ [of_nat ((((n0 * 64 + n1) * 64 + n2) * 64 + n3) div 65536),
                     of_nat ((((n0 * 64 + n1) * 64 + n2) * 64 + n3) div 256 mod 256),
                     of_nat ((((n0 * 64 + n1) * 64 + n2) * 64 + n3) mod 256)])"
  using assms by (simp add: base64_value_char Let_def)

lemma decode_loop_triple:
  assumes "n0 < 64" "n1 < 64" "n2 < 64"
  shows "decode_loop [base64_char n0, base64_char n1, base64_char n2] 0 0 out
         = Inr (out @ [of_nat (((n0 * 64 + n1) * 64 + n2) div 4 div 256),
                       of_nat (((n0 * 64 + n1) * 64 + n2) div 4 mod 256)])"
  using assms by (simp add: base64_value_char Let_def)

lemma decode_loop_pair:
  assumes "n0 < 64" "n1 < 64"
  shows "decode_loop [base64_char n0, base64_char n1] 0 0 out
         = Inr (out @ [of_nat ((n0 * 64 + n1) div 16)])"
  using assms by (simp add: base64_value_char Let_def)

lemma triple_value:
  fixes x y :: nat
  shows "(x div 4 * 64 + (x mod 4 * 16 + y div 16)) * 64 + y mod 16 * 4 = (x * 256 + y) * 4"
  using quad_value_parts[of "x mod 4" "y mod 16" 0 "x div 4" "y div 16" 0]
  by simp

lemma pair_value:
  fixes x :: nat
  shows "x div 4 * 64 + x mod 4 * 16 = x * 16"
proof -
  have "x div 4 * 64 + x mod 4 * 16 = (x div 4 * 4 + x mod 4) * 16"
    by (simp only: distrib_right mult.assoc)
  then show ?thesis by simp
qed

lemma decode_triple:
  fixes x y :: nat
  assumes "y < 256"
  shows "(x * 256 + y) * 4 div 4 div 256 = x" and "(x * 256 + y) * 4 div 4 mod 256 = y"
  using assms by simp_all

lemma decode_loop_unpadded: "decode_loop (base64_unpadded bs) 0 0 out = Inr (out @ bs)"
proof (induction bs arbitrary: out rule: base64_unpadded.induct)
  case (1 a b c rest)
  let ?v = "((unat a div 4 * 64 + (unat a mod 4 * 16 + unat b div 16)) * 64
      + (unat b mod 16 * 4 + unat c div 64)) * 64 + unat c mod 64"
  have v: "?v = unat a * 65536 + unat b * 256 + unat c"
    by (rule quad_value)
  have "decode_loop (base64_unpadded (a # b # c # rest)) 0 0 out
      = decode_loop (base64_unpadded rest) 0 0
          (out @ [of_nat (?v div 65536), of_nat (?v div 256 mod 256), of_nat (?v mod 256)])"
    using decode_loop_quad[of "unat a div 4" "unat a mod 4 * 16 + unat b div 16"
        "unat b mod 16 * 4 + unat c div 64" "unat c mod 64" "base64_unpadded rest" out]
    by (simp add: sextet_bounds unat_byte_less)
  also have "\<dots> = decode_loop (base64_unpadded rest) 0 0 (out @ [a, b, c])"
    unfolding v by (simp add: decode_quad unat_byte_less)
  also have "\<dots> = Inr ((out @ [a, b, c]) @ rest)"
    by (rule "1.IH")
  finally show ?case by simp
next
  case (2 a b)
  let ?v = "(unat a div 4 * 64 + (unat a mod 4 * 16 + unat b div 16)) * 64 + unat b mod 16 * 4"
  have v: "?v = (unat a * 256 + unat b) * 4"
    by (rule triple_value)
  have "decode_loop (base64_unpadded [a, b]) 0 0 out
      = Inr (out @ [of_nat (?v div 4 div 256), of_nat (?v div 4 mod 256)])"
    using decode_loop_triple[of "unat a div 4" "unat a mod 4 * 16 + unat b div 16"
        "unat b mod 16 * 4" out]
    by (simp add: sextet_bounds unat_byte_less)
  also have "\<dots> = Inr (out @ [a, b])"
    unfolding v by (simp add: decode_triple unat_byte_less)
  finally show ?case .
next
  case (3 a)
  let ?v = "unat a div 4 * 64 + unat a mod 4 * 16"
  have v: "?v = unat a * 16"
    by (rule pair_value)
  have "decode_loop (base64_unpadded [a]) 0 0 out = Inr (out @ [of_nat (?v div 16)])"
    using decode_loop_pair[of "unat a div 4" "unat a mod 4 * 16" out]
    by (simp add: sextet_bounds unat_byte_less)
  also have "\<dots> = Inr (out @ [a])"
    unfolding v by simp
  finally show ?case .
next
  case 4
  then show ?case by simp
qed

lemma fromCharCodes_eq: "fromCharCodes bs binary = binary @ map (\<lambda>b. char_of (unat b)) bs"
  by (induction bs arbitrary: binary) simp_all

lemma encode_eq: "encode bytes = Inr (base64_encode bytes)"
proof -
  have "map (\<lambda>c. of_nat (of_char c) :: byte) (map (\<lambda>b. char_of (unat b)) bytes) = bytes"
    by (induction bytes) (simp_all add: byte_of_unat)
  then show ?thesis
    by (simp add: encode_def btoa_def fromCharCodes_eq)
qed

lemma forgiving_decode_encode: "forgiving_base64_decode (base64_encode bytes) = Inr bytes"
proof -
  have "\<not> (\<exists>c\<in>set (base64_unpadded bytes). c \<notin> set base64_alphabet)"
    using base64_unpadded_alphabet[of bytes] by blast
  then show ?thesis
    using length_base64_unpadded[of bytes] decode_loop_unpadded[of bytes "[]"]
    by (simp add: forgiving_base64_decode_def Let_def base64_encode_no_whitespace
        strip_padding_encode)
qed

text \<open>
  Claim C8. For every byte sequence, the empty one included, \<open>encode\<close> returns the
  standard padded base64 text of RFC 4648, and \<open>decodeBase64\<close> of that text returns
  exactly the original bytes.
\<close>

theorem decodeBase64_encode:
  "encode bytes = Inr (base64_encode bytes) \<and> decodeBase64 (base64_encode bytes) = Inr bytes"
  by (simp add: encode_eq decodeBase64_forgiving forgiving_decode_encode)

theorem decodeBase64_encode_witness:
  "encode [0x41, 0x42, 0x43, 0x44] = Inr ''QUJDRA=='' \<and> decodeBase64 ''QUJDRA=='' = Inr [0x41, 0x42, 0x43, 0x44]
   \<and> encode [] = Inr [] \<and> decodeBase64 [] = Inr []"
  using decodeBase64_encode[of "[0x41, 0x42, 0x43, 0x44]"] decodeBase64_encode[of "[]"]
  by (simp add: base64_char_def base64_alphabet_def)

section \<open>Word wrap\<close>

lemma split_on_not_Nil: "split_on sep s \<noteq> []"
  by (induction s) (auto split: list.splits)


text \<open>The vertical cursor: line \<open>i\<close> is drawn at \<open>310 + 45 * i\<close>, and the loop is entered
  only with the cursor inside the body region.\<close>

lemma wrap_loop_cursor:
  assumes "map ft_y (drawn st) = map (\<lambda>i. 310 + 45 * i) [0..<length (drawn st)]"
    and "cur_y st = 310 + 45 * length (drawn st)"
    and "cur_y st \<le> height - 100"
  shows "map ft_y (drawn (wrap_loop measureText n ws st))
           = map (\<lambda>i. 310 + 45 * i) [0..<length (drawn (wrap_loop measureText n ws st))]
       \<and> cur_y (wrap_loop measureText n ws st)
           = 310 + 45 * length (drawn (wrap_loop measureText n ws st))
       \<and> length (drawn (wrap_loop measureText n ws st)) \<le> 7"
  using assms
proof (induction ws arbitrary: n st)
  case Nil
  then show ?case by (simp add: height_def)
next
  case (Cons word rest)
  let ?st = "wrap_step measureText n word st"
  have a: "map ft_y (drawn ?st) = map (\<lambda>i. 310 + 45 * i) [0..<length (drawn ?st)]"
    using Cons.prems(1,2) by (simp add: wrap_step_def Let_def)
  have b: "cur_y ?st = 310 + 45 * length (drawn ?st)"
    using Cons.prems(2) by (simp add: wrap_step_def Let_def lineHeight_def)
  have c: "length (drawn ?st) \<le> 7"
    using Cons.prems(2,3) by (simp add: wrap_step_def Let_def height_def)
  show ?case
  proof (cases "cur_y ?st > height - 100")
    case True
    then show ?thesis using a b c by (simp add: Let_def)
  next
    case False
    then have "cur_y ?st \<le> height - 100" by simp
    from Cons.IH[OF a b this, of "n + 1"] show ?thesis using False by (simp add: Let_def)
  qed
qed


text \<open>The first drawn line begins with the first word.\<close>

lemma wrap_loop_first:
  assumes "if drawn st = [] then prefix p (cur_line st) else prefix p (ft_text (hd (drawn st)))"
    and "0 < n"
  shows "prefix p (ft_text (hd (drawn (wrap_loop measureText n ws st)
            @ [FillText (cur_line (wrap_loop measureText n ws st)) 60
                 (cur_y (wrap_loop measureText n ws st))])))"
  using assms
proof (induction ws arbitrary: n st)
  case Nil
  then show ?case by (cases "drawn st") (auto split: if_splits)
next
  case (Cons word rest)
  let ?st = "wrap_step measureText n word st"
  have inv: "if drawn ?st = [] then prefix p (cur_line ?st) else prefix p (ft_text (hd (drawn ?st)))"
    using Cons.prems by (cases "drawn st") (auto simp: wrap_step_def Let_def split: if_splits)
  show ?case
  proof (cases "cur_y ?st > height - 100")
    case True
    then show ?thesis using inv by (cases "drawn ?st") (auto simp: Let_def split: if_splits)
  next
    case False
    from Cons.IH[OF inv, of "n + 1"] show ?thesis using False by (simp add: Let_def)
  qed
qed


lemma draw_body_first:
  "prefix (hd (split_on CHR '' '' text) @ '' '') (ft_text (hd (draw_body measureText text)))"
proof (cases "split_on CHR '' '' text")
  case Nil
  then show ?thesis using split_on_not_Nil by blast
next
  case (Cons word rest)
  let ?init = "\<lparr>cur_line = [], cur_y = height div 2 - 50, drawn = []\<rparr>"
  let ?st = "wrap_step measureText 0 word ?init"
  have st: "?st = \<lparr>cur_line = word @ '' '', cur_y = height div 2 - 50, drawn = []\<rparr>"
    by (simp add: wrap_step_def)
  show ?thesis
  proof (cases "cur_y ?st > height - 100")
    case True
    then show ?thesis using Cons st by (simp add: draw_body_def Let_def)
  next
    case False
    have "prefix (word @ '' '') (ft_text (hd (drawn (wrap_loop measureText (0 + 1) rest ?st)
            @ [FillText (cur_line (wrap_loop measureText (0 + 1) rest ?st)) 60
                 (cur_y (wrap_loop measureText (0 + 1) rest ?st))])))"
      by (rule wrap_loop_first) (simp_all add: st)
    then show ?thesis using Cons False by (simp add: draw_body_def Let_def)
  qed
qed

lemma draw_body_cursor:
  "map ft_y (draw_body measureText text)
     = map (\<lambda>i. 310 + 45 * i) [0..<length (draw_body measureText text)]
   \<and> length (draw_body measureText text) \<le> 8"
proof -
  let ?ws = "split_on CHR '' '' text"
  let ?init = "\<lparr>cur_line = [], cur_y = height div 2 - 50, drawn = []\<rparr>"
  let ?st = "wrap_loop measureText 0 ?ws ?init"
  have body: "draw_body measureText text = drawn ?st @ [FillText (cur_line ?st) 60 (cur_y ?st)]"
    by (simp add: draw_body_def Let_def)
  have "map ft_y (drawn ?st) = map (\<lambda>i. 310 + 45 * i) [0..<length (drawn ?st)]
       \<and> cur_y ?st = 310 + 45 * length (drawn ?st) \<and> length (drawn ?st) \<le> 7"
    by (rule wrap_loop_cursor) (simp_all add: height_def)
  then show ?thesis
    unfolding body by simp
qed




text \<open>
  Claim C10. For every non-empty text the word wrap draws at least one line; the first
  word goes into the line buffer whatever it measures (at index 0 the width test is
  skipped), so the first line drawn begins with the first word and a space, at the
  initial cursor position; and the last \<open>fillText\<close> is the line left in the buffer when
  the loop ends, at the final cursor position.
\<close>

theorem draw_body_first_and_last:
  assumes "text \<noteq> []"
  shows "draw_body measureText text \<noteq> []
     \<and> wrap_step measureText 0 (hd (split_on CHR '' '' text))
          \<lparr>cur_line = [], cur_y = height div 2 - 50, drawn = []\<rparr>
        = \<lparr>cur_line = hd (split_on CHR '' '' text) @ '' '', cur_y = height div 2 - 50, drawn = []\<rparr>
     \<and> prefix (hd (split_on CHR '' '' text) @ '' '') (ft_text (hd (draw_body measureText text)))
     \<and> ft_y (hd (draw_body measureText text)) = height div 2 - 50
     \<and> last (draw_body measureText text)
        = FillText
            (cur_line (wrap_loop measureText 0 (split_on CHR '' '' text)
               \<lparr>cur_line = [], cur_y = height div 2 - 50, drawn = []\<rparr>))
            60
            (cur_y (wrap_loop measureText 0 (split_on CHR '' '' text)
               \<lparr>cur_line = [], cur_y = height div 2 - 50, drawn = []\<rparr>))"
proof -
  have ne: "draw_body measureText text \<noteq> []"
    by (simp add: draw_body_def Let_def)
  have "map ft_y (draw_body measureText text)
       = map (\<lambda>i. 310 + 45 * i) [0..<length (draw_body measureText text)]"
    using draw_body_cursor by blast
  then have "hd (map ft_y (draw_body measureText text)) = 310"
    using ne by (simp add: hd_map upt_conv_Cons)
  then have y: "ft_y (hd (draw_body measureText text)) = height div 2 - 50"
    using ne by (simp add: hd_map height_def)
  show ?thesis
    using ne y draw_body_first[of "text" measureText]
    by (simp add: wrap_step_def) (simp add: draw_body_def Let_def)
qed

theorem draw_body_first_and_last_witness:
  "''aaaaaaaaaaaaaaaaaaaaaaaaaaaaaaaaaaaaaaaaaaaaaaaaaaaaaaaaaaaaaaaaaaaaaaa bb'' \<noteq> []
   \<and> draw_body fixed_pitch ''aaaaaaaaaaaaaaaaaaaaaaaaaaaaaaaaaaaaaaaaaaaaaaaaaaaaaaaaaaaaaaaaaaaaaaa bb''
       = [FillText ''aaaaaaaaaaaaaaaaaaaaaaaaaaaaaaaaaaaaaaaaaaaaaaaaaaaaaaaaaaaaaaaaaaaaaaa '' 60 310,
          FillText ''bb '' 60 355]"
  using draw_body_first_and_last[of
      "''aaaaaaaaaaaaaaaaaaaaaaaaaaaaaaaaaaaaaaaaaaaaaaaaaaaaaaaaaaaaaaaaaaaaaaa bb''" fixed_pitch]
  by (simp add: draw_body_def wrap_step_def fixed_pitch_def maxWidth_def width_def height_def
      lineHeight_def Let_def)

section \<open>The muxer's promise and resources\<close>

lemma settle_settled: "p \<noteq> Pending \<Longrightarrow> settle p v = p"
  by (cases p) (simp_all add: settle_def)

lemma handle_settled: "result s \<noteq> Pending \<Longrightarrow> result (handle br ev s) = result s"
  by (cases ev) (simp_all add: settle_settled)

lemma run_settled: "result s \<noteq> Pending \<Longrightarrow> result (run br evs s) = result s"
  by (induction evs arbitrary: s) (simp_all add: handle_settled)

text \<open>Before \<open>canplaythrough\<close> there is neither a recorder nor \<open>onended\<close>, and no event
  but \<open>canplaythrough\<close> creates them: the object URL stays live.\<close>

lemma handle_idle:
  "ev \<noteq> CanPlayThrough \<Longrightarrow> recorder s = NoRecorder \<Longrightarrow> \<not> onended_set s \<Longrightarrow>
     recorder (handle br ev s) = NoRecorder \<and> \<not> onended_set (handle br ev s)
     \<and> object_url (handle br ev s) = object_url s
     \<and> audio_ctx (handle br ev s) = audio_ctx s
     \<and> capturing (handle br ev s) = capturing s"
  by (cases ev) simp_all

lemma run_idle:
  "CanPlayThrough \<notin> set evs \<Longrightarrow> recorder s = NoRecorder \<Longrightarrow> \<not> onended_set s \<Longrightarrow>
     object_url (run br evs s) = object_url s \<and> audio_ctx (run br evs s) = audio_ctx s
     \<and> capturing (run br evs s) = capturing s"
proof (induction evs arbitrary: s)
  case Nil
  then show ?case by simp
next
  case (Cons ev evs)
  then have "ev \<noteq> CanPlayThrough" "CanPlayThrough \<notin> set evs" by auto
  with Cons.prems handle_idle[of ev s br] Cons.IH[of "handle br ev s"] show ?case by simp
qed

text \<open>
  Claim C4 asks that every exit path, the rejection after a failed load included, ends
  with the audio context closed and the object URL revoked. The code revokes the URL in
  \<open>recorder.onstop\<close> only: when the audio element reports an error the promise is
  rejected and the object URL created for the blob is still live. (No audio context has
  been opened on that path.) \<open>audio_error_never_revokes\<close> is the same fact for every
  input and every continuation without \<open>canplaythrough\<close>; \<open>success_path_releases\<close> shows the
  path that does release both.
\<close>

theorem audio_error_leaks_object_url:
  "audioBlobToVideo example_browser [AudioError ''decode''] example_wav ''hello'' ''Kore''
     = Rejected (AudioErrorEvent ''decode'')
   \<and> object_url (run example_browser [AudioError ''decode'']
        (audioBlobToVideo_start example_browser example_wav ''hello'' ''Kore'')) = Live"
  by (simp add: audioBlobToVideo_def audioBlobToVideo_start_def example_browser_def settle_def)

lemma audio_error_never_revokes:
  "canvas_2d br \<Longrightarrow> CanPlayThrough \<notin> set evs \<Longrightarrow>
     object_url (run br (AudioError e # evs) (audioBlobToVideo_start br audioBlob text voiceName))
       = Live"
  using run_idle[of evs "handle br (AudioError e) (audioBlobToVideo_start br audioBlob text voiceName)" br]
  by (simp add: audioBlobToVideo_start_def)

lemma success_path_releases:
  "canvas_2d br \<Longrightarrow>
   run br [CanPlayThrough, Ended, DataAvailable d, RecorderStop]
        (audioBlobToVideo_start br audioBlob text voiceName) = s \<Longrightarrow>
   object_url s = Released \<and> audio_ctx s = Released
   \<and> result s = Resolved \<lparr>blob_bytes = d,
        blob_type = (if mp4_supported br then ''video/mp4'' else ''video/webm'')\<rparr>"
  by (auto simp add: audioBlobToVideo_start_def settle_def)

lemma run_append: "run br (evs @ evs') s = run br evs' (run br evs s)"
  by (induction evs arbitrary: s) simp_all

text \<open>Before \<open>canplaythrough\<close> only an error changes the state.\<close>

lemma run_unchanged:
  assumes "recorder s = NoRecorder" and "\<not> onended_set s"
    and "\<forall>ev\<in>set evs. ev \<noteq> CanPlayThrough \<and> (\<forall>x. ev \<noteq> AudioError x)"
  shows "run br evs s = s"
  using assms
proof (induction evs)
  case Nil
  then show ?case by simp
next
  case (Cons ev evs)
  then have "handle br ev s = s" by (cases ev) simp_all
  with Cons show ?case by simp
qed

lemma listening_handle: "listening (handle br ev s) = listening s"
  by (cases ev) simp_all

lemma listening_run: "listening (run br evs s) = listening s"
  by (induction evs arbitrary: s) (simp_all add: listening_handle)

text \<open>An error that arrives while the audio is still loading.\<close>

lemma audio_error_while_loading:
  assumes "canvas_2d br"
    and "\<forall>ev\<in>set earlier. ev \<noteq> CanPlayThrough \<and> (\<forall>x. ev \<noteq> AudioError x)"
  shows "result (run br (earlier @ [AudioError e])
             (audioBlobToVideo_start br audioBlob text voiceName))
           = Rejected (AudioErrorEvent e)
     \<and> \<not> capturing (run br (earlier @ [AudioError e])
             (audioBlobToVideo_start br audioBlob text voiceName))
     \<and> audio_ctx (run br (earlier @ [AudioError e])
             (audioBlobToVideo_start br audioBlob text voiceName)) = NotCreated
     \<and> recorder (run br (earlier @ [AudioError e])
             (audioBlobToVideo_start br audioBlob text voiceName)) = NoRecorder
     \<and> audioBlobToVideo br (earlier @ AudioError e # later) audioBlob text voiceName
           = Rejected (AudioErrorEvent e)"
proof -
  let ?init = "audioBlobToVideo_start br audioBlob text voiceName"
  let ?after = "run br (earlier @ [AudioError e]) ?init"
  have "run br earlier ?init = ?init"
    using assms by (intro run_unchanged) (simp_all add: audioBlobToVideo_start_def)
  then have s: "?after = handle br (AudioError e) ?init"
    by (simp add: run_append)
  have r: "result ?after = Rejected (AudioErrorEvent e)"
    unfolding s using assms(1) by (simp add: audioBlobToVideo_start_def settle_def)
  then have "result (run br later ?after) = Rejected (AudioErrorEvent e)"
    by (simp add: run_settled)
  then have "audioBlobToVideo br (earlier @ AudioError e # later) audioBlob text voiceName
      = Rejected (AudioErrorEvent e)"
    using run_append[of br "earlier @ [AudioError e]" later ?init]
    by (simp add: audioBlobToVideo_def)
  moreover have "\<not> capturing ?after" "audio_ctx ?after = NotCreated" "recorder ?after = NoRecorder"
    unfolding s using assms(1) by (simp_all add: audioBlobToVideo_start_def)
  ultimately show ?thesis using r by simp
qed

text \<open>An error that arrives at any moment at which the promise is still pending, also
  during playback.\<close>

lemma audio_error_while_pending:
  assumes "canvas_2d br"
    and "result (run br before (audioBlobToVideo_start br audioBlob text voiceName)) = Pending"
  shows "audioBlobToVideo br (before @ AudioError e # later) audioBlob text voiceName
           = Rejected (AudioErrorEvent e)"
proof -
  let ?init = "audioBlobToVideo_start br audioBlob text voiceName"
  let ?mid = "run br before ?init"
  have "listening ?mid"
    using assms(1) by (simp add: listening_run audioBlobToVideo_start_def)
  then have "result (handle br (AudioError e) ?mid) = Rejected (AudioErrorEvent e)"
    using assms(2) by (simp add: settle_def)
  then have "result (run br later (handle br (AudioError e) ?mid)) = Rejected (AudioErrorEvent e)"
    by (simp add: run_settled)
  then show ?thesis
    by (simp add: audioBlobToVideo_def run_append)
qed

text \<open>
  Claim C7, as amended. The canvas has a 2d context. When the audio element reports an
  error while the audio is still loading (no \<open>canplaythrough\<close> and no other error came
  before), the promise is rejected with that error at a moment when no canvas capture,
  audio context or recorder has been started. And whenever the error arrives while the
  promise is still pending, during playback and after the capture has started as well,
  the promise is rejected with that error and stays rejected whatever events follow: no
  output blob is resolved to the caller.
\<close>

theorem audio_error_rejects_before_capture:
  assumes "canvas_2d br"
  shows "((\<forall>ev\<in>set earlier. ev \<noteq> CanPlayThrough \<and> (\<forall>x. ev \<noteq> AudioError x)) \<longrightarrow>
         result (run br (earlier @ [AudioError e])
             (audioBlobToVideo_start br audioBlob text voiceName))
           = Rejected (AudioErrorEvent e)
       \<and> \<not> capturing (run br (earlier @ [AudioError e])
             (audioBlobToVideo_start br audioBlob text voiceName))
       \<and> audio_ctx (run br (earlier @ [AudioError e])
             (audioBlobToVideo_start br audioBlob text voiceName)) = NotCreated
       \<and> recorder (run br (earlier @ [AudioError e])
             (audioBlobToVideo_start br audioBlob text voiceName)) = NoRecorder
       \<and> audioBlobToVideo br (earlier @ AudioError e # later) audioBlob text voiceName
           = Rejected (AudioErrorEvent e))
     \<and> (result (run br before (audioBlobToVideo_start br audioBlob text voiceName)) = Pending \<longrightarrow>
         audioBlobToVideo br (before @ AudioError e # later) audioBlob text voiceName
           = Rejected (AudioErrorEvent e))"
  using audio_error_while_loading[OF assms, of earlier e audioBlob "text" voiceName later]
    audio_error_while_pending[OF assms, of before audioBlob "text" voiceName e later]
  by blast

theorem audio_error_rejects_before_capture_witness:
  "canvas_2d example_browser
   \<and> audioBlobToVideo example_browser
        ([Ended] @ AudioError ''decode'' # [CanPlayThrough, Ended, DataAvailable [1, 2], RecorderStop])
        example_wav ''hello'' ''Kore''
      = Rejected (AudioErrorEvent ''decode'')
   \<and> result (run example_browser [CanPlayThrough, DataAvailable [1]]
        (audioBlobToVideo_start example_browser example_wav ''hello'' ''Kore'')) = Pending
   \<and> audioBlobToVideo example_browser
        ([CanPlayThrough, DataAvailable [1]] @ AudioError ''decode'' # [Ended, RecorderStop])
        example_wav ''hello'' ''Kore''
      = Rejected (AudioErrorEvent ''decode'')"
proof -
  have c: "canvas_2d example_browser"
    by (simp add: example_browser_def)
  have p: "result (run example_browser [CanPlayThrough, DataAvailable [1]]
        (audioBlobToVideo_start example_browser example_wav ''hello'' ''Kore'')) = Pending"
    by (simp add: audioBlobToVideo_start_def example_browser_def)
  have e: "\<forall>ev\<in>set [Ended]. ev \<noteq> CanPlayThrough \<and> (\<forall>x. ev \<noteq> AudioError x)"
    by simp
  from audio_error_rejects_before_capture[OF c, of "[Ended]" "''decode''" example_wav
      "''hello''" "''Kore''" "[CanPlayThrough, Ended, DataAvailable [1, 2], RecorderStop]"
      "[CanPlayThrough, DataAvailable [1]]"] e
  have 1: "audioBlobToVideo example_browser
        ([Ended] @ AudioError ''decode'' # [CanPlayThrough, Ended, DataAvailable [1, 2], RecorderStop])
        example_wav ''hello'' ''Kore''
      = Rejected (AudioErrorEvent ''decode'')"
    by blast
  from audio_error_rejects_before_capture[OF c, of "[]" "''decode''" example_wav
      "''hello''" "''Kore''" "[Ended, RecorderStop]" "[CanPlayThrough, DataAvailable [1]]"] p
  have 2: "audioBlobToVideo example_browser
        ([CanPlayThrough, DataAvailable [1]] @ AudioError ''decode'' # [Ended, RecorderStop])
        example_wav ''hello'' ''Kore''
      = Rejected (AudioErrorEvent ''decode'')"
    by blast
  from c p 1 2 show ?thesis by blast
qed

text \<open>
  Claim C7 as stated, for every failure of the audio, fails when the error comes during
  playback: \<open>onerror\<close> stays registered after \<open>canplaythrough\<close>, so the promise is rejected
  at a moment when the canvas capture, the audio context and the recorder have already
  been started.
\<close>

theorem audio_error_after_capture_started:
  "audioBlobToVideo example_browser [CanPlayThrough, AudioError ''decode''] example_wav
       ''hello'' ''Kore''
     = Rejected (AudioErrorEvent ''decode'')
   \<and> capturing (run example_browser [CanPlayThrough, AudioError ''decode'']
        (audioBlobToVideo_start example_browser example_wav ''hello'' ''Kore''))
   \<and> audio_ctx (run example_browser [CanPlayThrough, AudioError ''decode'']
        (audioBlobToVideo_start example_browser example_wav ''hello'' ''Kore'')) = Live
   \<and> recorder (run example_browser [CanPlayThrough, AudioError ''decode'']
        (audioBlobToVideo_start example_browser example_wav ''hello'' ''Kore'')) = Recording"
  by (simp add: audioBlobToVideo_def audioBlobToVideo_start_def example_browser_def settle_def)

section \<open>Bulk export\<close>

subsection \<open>File names\<close>

declare decimal.simps [simp del]

lemma decimal_not_Nil: "decimal n \<noteq> []"
  by (subst decimal.simps) simp

lemma char_of_inj_small: "a < 256 \<Longrightarrow> b < 256 \<Longrightarrow> char_of a = char_of b \<Longrightarrow> a = b"
  for a b :: nat
  by (metis mod_less of_char_of)

lemma decimal_inj: "decimal m = decimal n \<Longrightarrow> m = n"
proof (induction m arbitrary: n rule: decimal.induct)
  case (1 m)
  show ?case
  proof (cases "m < 10")
    case True
    note m = this
    show ?thesis
    proof (cases "n < 10")
      case True
      with m "1.prems" have "char_of (48 + m) = char_of (48 + n)"
        by (simp add: decimal.simps[of m] decimal.simps[of n])
      with m True show ?thesis
        using char_of_inj_small[of "48 + m" "48 + n"] by simp
    next
      case False
      with m "1.prems" have "[char_of (48 + m)] = decimal (n div 10) @ [char_of (48 + n mod 10)]"
        by (simp add: decimal.simps[of m] decimal.simps[of n])
      then show ?thesis using decimal_not_Nil[of "n div 10"] by simp
    qed
  next
    case False
    note m = this
    show ?thesis
    proof (cases "n < 10")
      case True
      with m "1.prems" have "decimal (m div 10) @ [char_of (48 + m mod 10)] = [char_of (48 + n)]"
        by (simp add: decimal.simps[of m] decimal.simps[of n])
      then show ?thesis using decimal_not_Nil[of "m div 10"] by simp
    next
      case False
      with m "1.prems" have eq: "decimal (m div 10) = decimal (n div 10)"
        "char_of (48 + m mod 10) = char_of (48 + n mod 10)"
        by (simp_all add: decimal.simps[of m] decimal.simps[of n])
      from "1.IH"[OF m eq(1)] have "m div 10 = n div 10" .
      moreover have "m mod 10 = n mod 10"
        using char_of_inj_small[of "48 + m mod 10" "48 + n mod 10"] eq(2) by simp
      ultimately show ?thesis by (metis div_mult_mod_eq)
    qed
  qed
qed

lemma underscore_not_digit: "d < 10 \<Longrightarrow> char_of (48 + d) \<noteq> CHR ''_''" for d :: nat
proof
  assume d: "d < 10" and "char_of (48 + d) = CHR ''_''"
  then have "(of_char (char_of (48 + d)) :: nat) = of_char CHR ''_''"
    by simp
  with d show False by simp
qed

lemma decimal_no_underscore: "CHR ''_'' \<notin> set (decimal n)"
proof (induction n rule: decimal.induct)
  case (1 n)
  show ?case
  proof (cases "n < 10")
    case True
    then show ?thesis using underscore_not_digit[of n] by (simp add: decimal.simps[of n])
  next
    case False
    then show ?thesis
      using "1.IH" underscore_not_digit[of "n mod 10"] by (simp add: decimal.simps[of n])
  qed
qed

lemma separator_cancel:
  assumes "xs @ a # r = ys @ a # r'" and "a \<notin> set xs" and "a \<notin> set ys"
  shows "xs = ys"
proof -
  have "takeWhile (\<lambda>x. x \<noteq> a) (xs @ a # r) = xs" "takeWhile (\<lambda>x. x \<noteq> a) (ys @ a # r') = ys"
    using assms(2,3) by (auto simp add: takeWhile_tail)
  with assms(1) show ?thesis by simp
qed

lemma baseFilename_index:
  assumes "baseFilename i g @ s = baseFilename j h @ t"
  shows "i = j"
proof -
  from assms have "decimal (i + 1) @ CHR ''_'' # (safeName g @ ''_'' @ take 8 (gen_id g) @ s)
      = decimal (j + 1) @ CHR ''_'' # (safeName h @ ''_'' @ take 8 (gen_id h) @ t)"
    by (simp add: baseFilename_def)
  then have "decimal (i + 1) = decimal (j + 1)"
    by (rule separator_cancel) (rule decimal_no_underscore)+
  then show ?thesis using decimal_inj by fastforce
qed

lemma baseFilename_not_Nil: "baseFilename i g \<noteq> []"
  by (simp add: baseFilename_def decimal_not_Nil)


subsection \<open>The archive\<close>

lemma zip_file_fresh: "name \<notin> fst ` set z \<Longrightarrow> zip_file name e z = z @ [(name, e)]"
  unfolding zip_file_def by (induction z) auto

lemma file_entries_append: "file_entries (z @ z') = file_entries z @ file_entries z'"
  by (simp add: file_entries_def)

lemma entries_in_append: "entries_in f (z @ z') = entries_in f z @ entries_in f z'"
  by (simp add: entries_in_def)

lemma wav_path_neq_mp4_path: "''wav_audio/'' @ a \<noteq> ''mp4_video/'' @ b"
  by simp

lemma paths_neq_manifest:
  "''wav_audio/'' @ a \<noteq> ''manifest.txt''" "''mp4_video/'' @ b \<noteq> ''manifest.txt''"
  by simp_all

lemma export_loop_success:
  assumes "\<forall>j<length gens. \<exists>b. derive_video env (i + j) (gens ! j) = Resolved b"
    and "\<forall>j\<ge>i. \<forall>g s. ''wav_audio/'' @ baseFilename j g @ s \<notin> fst ` set (ls_zip st)
            \<and> ''mp4_video/'' @ baseFilename j g @ s \<notin> fst ` set (ls_zip st)"
  shows "\<exists>ls new. export_loop env i gens st = (Completed, ls)
       \<and> ls_zip ls = ls_zip st @ new
       \<and> length new = 2 * length gens
       \<and> length (entries_in ''wav_audio'' new) = length gens
       \<and> length (entries_in ''mp4_video'' new) = length gens
       \<and> file_entries new = new
       \<and> distinct (map fst new)
       \<and> fst ` set new \<inter> fst ` set (ls_zip st) = {}
       \<and> ''manifest.txt'' \<notin> fst ` set new
       \<and> downloads (ls_app ls) = downloads (ls_app st)
       \<and> generated (ls_app ls) = generated (ls_app st)
       \<and> toasts (ls_app ls) = toasts (ls_app st)
       \<and> video_calls (ls_app ls) = video_calls (ls_app st) + length gens"
  using assms
proof (induction gens arbitrary: i st)
  case Nil
  then show ?case by (simp add: file_entries_def entries_in_def)
next
  case (Cons gen rest)
  from Cons.prems(1) obtain b where b: "derive_video env i gen = Resolved b"
    by fastforce
  define ext where "ext = (if string_includes (blob_type b) ''mp4'' then ''mp4'' else ''webm'')"
  define w where "w = ''wav_audio/'' @ baseFilename i gen @ ''.wav''"
  define m where "m = ''mp4_video/'' @ baseFilename i gen @ ''.'' @ ext"
  define zip2 where "zip2 = ls_zip st @ [(w, File (gen_blob gen)), (m, File b)]"
  define st' where "st' = \<lparr>ls_zip = zip2,
      ls_manifest = ls_manifest st @ manifest_item env i gen ext,
      ls_app = (ls_app st)\<lparr>video_calls := video_calls (ls_app st) + 1,
                 exportProgress := (i + 1, snd (exportProgress (ls_app st)))\<rparr>\<rparr>"
  have w_fresh: "w \<notin> fst ` set (ls_zip st)"
    using Cons.prems(2) unfolding w_def by blast
  have m_fresh: "m \<notin> fst ` set (ls_zip st)"
    using Cons.prems(2) unfolding m_def by blast
  have wm: "w \<noteq> m"
    unfolding w_def m_def by simp
  have zip1: "zip_file w (File (gen_blob gen)) (ls_zip st) = ls_zip st @ [(w, File (gen_blob gen))]"
    using w_fresh by (rule zip_file_fresh)
  have zip2: "zip_file m (File b) (ls_zip st @ [(w, File (gen_blob gen))]) = zip2"
    unfolding zip2_def using m_fresh wm by (subst zip_file_fresh) auto
  have step: "export_loop env i (gen # rest) st = export_loop env (i + 1) rest st'"
    using b zip1 zip2 unfolding w_def m_def st'_def ext_def
    by (simp add: Let_def)
  have res': "\<forall>j<length rest. \<exists>b. derive_video env (i + 1 + j) (rest ! j) = Resolved b"
  proof (intro allI impI)
    fix j assume "j < length rest"
    then have "\<exists>b. derive_video env (i + Suc j) ((gen # rest) ! Suc j) = Resolved b"
      using Cons.prems(1) by (metis Suc_less_eq length_Cons)
    then show "\<exists>b. derive_video env (i + 1 + j) (rest ! j) = Resolved b" by simp
  qed
  have later: "''wav_audio/'' @ baseFilename j g @ s \<noteq> w
      \<and> ''wav_audio/'' @ baseFilename j g @ s \<noteq> m
      \<and> ''mp4_video/'' @ baseFilename j g @ s \<noteq> w
      \<and> ''mp4_video/'' @ baseFilename j g @ s \<noteq> m" if "j \<ge> i + 1" for j g s
  proof -
    have "baseFilename j g @ s \<noteq> baseFilename i gen @ t" for t
      using baseFilename_index[of j g s i gen t] that by auto
    then show ?thesis unfolding w_def m_def by simp
  qed
  have fresh': "\<forall>j\<ge>i + 1. \<forall>g s. ''wav_audio/'' @ baseFilename j g @ s \<notin> fst ` set (ls_zip st')
            \<and> ''mp4_video/'' @ baseFilename j g @ s \<notin> fst ` set (ls_zip st')"
  proof (intro allI impI)
    fix j g s assume j: "i + 1 \<le> j"
    then have "i \<le> j" by simp
    with Cons.prems(2) have "''wav_audio/'' @ baseFilename j g @ s \<notin> fst ` set (ls_zip st)"
      "''mp4_video/'' @ baseFilename j g @ s \<notin> fst ` set (ls_zip st)"
      by blast+
    with later[OF j, of g s]
    show "''wav_audio/'' @ baseFilename j g @ s \<notin> fst ` set (ls_zip st')
        \<and> ''mp4_video/'' @ baseFilename j g @ s \<notin> fst ` set (ls_zip st')"
      by (simp add: st'_def zip2_def)
  qed
  from Cons.IH[OF res' fresh'] obtain ls new where ih:
    "export_loop env (i + 1) rest st' = (Completed, ls)"
    "ls_zip ls = ls_zip st' @ new"
    "length new = 2 * length rest"
    "length (entries_in ''wav_audio'' new) = length rest"
    "length (entries_in ''mp4_video'' new) = length rest"
    "file_entries new = new"
    "distinct (map fst new)"
    "fst ` set new \<inter> fst ` set (ls_zip st') = {}"
    "''manifest.txt'' \<notin> fst ` set new"
    "downloads (ls_app ls) = downloads (ls_app st')"
    "generated (ls_app ls) = generated (ls_app st')"
    "toasts (ls_app ls) = toasts (ls_app st')"
    "video_calls (ls_app ls) = video_calls (ls_app st') + length rest"
    by blast
  let ?new = "[(w, File (gen_blob gen)), (m, File b)] @ new"
  have keys': "fst ` set (ls_zip st') = fst ` set (ls_zip st) \<union> {w, m}"
    by (auto simp add: st'_def zip2_def)
  have "export_loop env i (gen # rest) st = (Completed, ls)"
    using step ih(1) by simp
  moreover have "ls_zip ls = ls_zip st @ ?new"
    using ih(2) by (simp add: st'_def zip2_def)
  moreover have "length ?new = 2 * length (gen # rest)"
    using ih(3) by simp
  moreover have "length (entries_in ''wav_audio'' ?new) = length (gen # rest)"
    using ih(4) by (simp add: entries_in_def w_def m_def)
  moreover have "length (entries_in ''mp4_video'' ?new) = length (gen # rest)"
    using ih(5) by (simp add: entries_in_def w_def m_def)
  moreover have "file_entries ?new = ?new"
    using ih(6) by (simp add: file_entries_def)
  moreover have "distinct (map fst ?new)"
    using ih(7,8) wm keys' by auto
  moreover have "fst ` set ?new \<inter> fst ` set (ls_zip st) = {}"
    using ih(8) keys' w_fresh m_fresh by auto
  moreover have "''manifest.txt'' \<notin> fst ` set ?new"
    using ih(9) by (simp add: w_def m_def)
  moreover have "downloads (ls_app ls) = downloads (ls_app st)"
    "generated (ls_app ls) = generated (ls_app st)"
    "toasts (ls_app ls) = toasts (ls_app st)"
    "video_calls (ls_app ls) = video_calls (ls_app st) + length (gen # rest)"
    using ih(10-13) by (simp_all add: st'_def)
  ultimately show ?case by blast
qed


lemma export_loop_failure:
  assumes "j < length gens"
    and "derive_video env (i + j) (gens ! j) = Rejected r"
    and "\<forall>k<j. \<exists>b. derive_video env (i + k) (gens ! k) = Resolved b"
  shows "\<exists>ls. export_loop env i gens st = (Failed r, ls)
       \<and> downloads (ls_app ls) = downloads (ls_app st)
       \<and> generated (ls_app ls) = generated (ls_app st)
       \<and> toasts (ls_app ls) = toasts (ls_app st)
       \<and> video_calls (ls_app ls) = video_calls (ls_app st) + j + 1"
  using assms
proof (induction gens arbitrary: i j st)
  case Nil
  then show ?case by simp
next
  case (Cons gen rest)
  show ?case
  proof (cases j)
    case 0
    with Cons.prems(2) have "derive_video env i gen = Rejected r" by simp
    with 0 show ?thesis by (simp add: Let_def)
  next
    case (Suc j')
    with Cons.prems(3) obtain b where b: "derive_video env i gen = Resolved b"
      by fastforce
    let ?ext = "if string_includes (blob_type b) ''mp4'' then ''mp4'' else ''webm''"
    let ?st = "\<lparr>ls_zip = zip_file (''mp4_video/'' @ baseFilename i gen @ ''.'' @ ?ext) (File b)
                  (zip_file (''wav_audio/'' @ baseFilename i gen @ ''.wav'') (File (gen_blob gen))
                     (ls_zip st)),
      ls_manifest = ls_manifest st @ manifest_item env i gen ?ext,
      ls_app = (ls_app st)\<lparr>video_calls := video_calls (ls_app st) + 1,
                 exportProgress := (i + 1, snd (exportProgress (ls_app st)))\<rparr>\<rparr>"
    have step: "export_loop env i (gen # rest) st = export_loop env (i + 1) rest ?st"
      using b by (simp add: Let_def)
    have 1: "j' < length rest"
      using Cons.prems(1) Suc by simp
    have 2: "derive_video env (i + 1 + j') (rest ! j') = Rejected r"
      using Cons.prems(2) Suc by simp
    have 3: "\<forall>k<j'. \<exists>b. derive_video env (i + 1 + k) (rest ! k) = Resolved b"
    proof (intro allI impI)
      fix k assume "k < j'"
      then have "\<exists>b. derive_video env (i + Suc k) ((gen # rest) ! Suc k) = Resolved b"
        using Cons.prems(3) Suc by (metis Suc_less_eq)
      then show "\<exists>b. derive_video env (i + 1 + k) (rest ! k) = Resolved b" by simp
    qed
    from Cons.IH[OF 1 2 3, of ?st] obtain ls where
      "export_loop env (i + 1) rest ?st = (Failed r, ls)"
      "downloads (ls_app ls) = downloads (ls_app ?st)"
      "generated (ls_app ls) = generated (ls_app ?st)"
      "toasts (ls_app ls) = toasts (ls_app ?st)"
      "video_calls (ls_app ls) = video_calls (ls_app ?st) + j' + 1"
      by blast
    then show ?thesis
      using step Suc by simp
  qed
qed

text \<open>
  Claim C6. If during a bulk export the video derivation of a record is rejected (the
  derivations of the records before it having resolved), the whole export aborts: no
  archive is generated and no download is offered, exactly one toast is added, the
  error "Bulk export failed during video synthesis.", and \<open>audioBlobToVideo\<close> has been
  called once for each record up to the failing one and never again (no retry, and no
  call for the records after it). The \<open>finally\<close> block has reset the export flags.
\<close>

theorem export_aborts_on_failed_video:
  assumes "j < length history"
    and "derive_video env j (history ! j) = Rejected r"
    and "\<forall>k<j. \<exists>b. derive_video env k (history ! k) = Resolved b"
  shows "generated (handleExportAll env history st) = generated st
     \<and> downloads (handleExportAll env history st) = downloads st
     \<and> toasts (handleExportAll env history st)
         = toasts st @ [(''Bulk export failed during video synthesis.'', ''error'')]
     \<and> video_calls (handleExportAll env history st) = video_calls st + j + 1
     \<and> isExporting (handleExportAll env history st) = False
     \<and> exportProgress (handleExportAll env history st) = (0, 0)"
proof -
  let ?st = "\<lparr>ls_zip = zip_folder ''mp4_video'' (zip_folder ''wav_audio'' []),
      ls_manifest = ''VoxGem AI Voiceover Export\<newline>Generated: ''
                      @ toLocaleString env (clock_start env) @ ''\<newline>\<newline>'',
      ls_app = st\<lparr>isExporting := True, exportProgress := (0, length history)\<rparr>\<rparr>"
  from export_loop_failure[of j history env 0 r ?st] assms obtain ls where
    "export_loop env 0 history ?st = (Failed r, ls)"
    "downloads (ls_app ls) = downloads st"
    "generated (ls_app ls) = generated st"
    "toasts (ls_app ls) = toasts st"
    "video_calls (ls_app ls) = video_calls st + j + 1"
    by auto
  moreover have "history \<noteq> []" using assms(1) by auto
  ultimately show ?thesis
    by (simp add: handleExportAll_def Let_def export_finally_def showToast_def)
qed

theorem export_aborts_on_failed_video_witness:
  "derive_video example_env 0 ([example_generation, example_generation] ! 0)
     = Resolved \<lparr>blob_bytes = [7], blob_type = ''video/mp4''\<rparr>
   \<and> derive_video example_env 1 ([example_generation, example_generation] ! 1)
     = Rejected (AudioErrorEvent ''decode'')
   \<and> downloads (handleExportAll example_env [example_generation, example_generation] initial_app) = []
   \<and> toasts (handleExportAll example_env [example_generation, example_generation] initial_app)
       = [(''Bulk export failed during video synthesis.'', ''error'')]
   \<and> video_calls (handleExportAll example_env [example_generation, example_generation] initial_app)
       = 2"
proof -
  have 0: "derive_video example_env 0 example_generation
      = Resolved \<lparr>blob_bytes = [7], blob_type = ''video/mp4''\<rparr>"
    by (simp add: derive_video_def audioBlobToVideo_def audioBlobToVideo_start_def
        example_env_def example_browser_def settle_def)
  have 1: "derive_video example_env 1 example_generation = Rejected (AudioErrorEvent ''decode'')"
    by (simp add: derive_video_def audioBlobToVideo_def audioBlobToVideo_start_def
        example_env_def example_browser_def settle_def)
  have "\<forall>k<1. \<exists>b. derive_video example_env k ([example_generation, example_generation] ! k)
      = Resolved b"
    using 0 by simp
  with export_aborts_on_failed_video[of 1 "[example_generation, example_generation]"
      example_env "AudioErrorEvent ''decode''" initial_app] 0 1
  show ?thesis
    by (simp add: initial_app_def)
qed


lemma export_archive:
  assumes "history \<noteq> []"
    and "\<forall>j<length history. \<exists>b. derive_video env j (history ! j) = Resolved b"
  shows "\<exists>content manifest.
       generated (handleExportAll env history st) = generated st @ [content]
     \<and> downloads (handleExportAll env history st)
         = downloads st @ [(''voxgem-studio-export-'' @ decimal (clock_end env) @ ''.zip'', content)]
     \<and> length (entries_in ''wav_audio'' content) = length history
     \<and> length (entries_in ''mp4_video'' content) = length history
     \<and> length (file_entries content) = 2 * length history + 1
     \<and> map_of content ''manifest.txt'' = Some (TextFile manifest)
     \<and> distinct (map fst content)"
proof -
  let ?zip0 = "[(''wav_audio/'', Folder), (''mp4_video/'', Folder)]"
  let ?st = "\<lparr>ls_zip = zip_folder ''mp4_video'' (zip_folder ''wav_audio'' []),
      ls_manifest = ''VoxGem AI Voiceover Export\<newline>Generated: ''
                      @ toLocaleString env (clock_start env) @ ''\<newline>\<newline>'',
      ls_app = st\<lparr>isExporting := True, exportProgress := (0, length history)\<rparr>\<rparr>"
  have zip0: "zip_folder ''mp4_video'' (zip_folder ''wav_audio'' []) = ?zip0"
    by (simp add: zip_folder_def)
  have fresh: "\<forall>j\<ge>0. \<forall>g s. ''wav_audio/'' @ baseFilename j g @ s \<notin> fst ` set (ls_zip ?st)
            \<and> ''mp4_video/'' @ baseFilename j g @ s \<notin> fst ` set (ls_zip ?st)"
    using baseFilename_not_Nil by (simp add: zip0)
  have res: "\<forall>j<length history. \<exists>b. derive_video env (0 + j) (history ! j) = Resolved b"
    using assms(2) by simp
  from export_loop_success[OF res fresh] obtain ls new where loop:
    "export_loop env 0 history ?st = (Completed, ls)"
    "ls_zip ls = ?zip0 @ new"
    "length new = 2 * length history"
    "length (entries_in ''wav_audio'' new) = length history"
    "length (entries_in ''mp4_video'' new) = length history"
    "file_entries new = new"
    "distinct (map fst new)"
    "fst ` set new \<inter> fst ` set ?zip0 = {}"
    "''manifest.txt'' \<notin> fst ` set new"
    "downloads (ls_app ls) = downloads st"
    "generated (ls_app ls) = generated st"
    by (auto simp add: zip0)
  let ?content = "?zip0 @ new @ [(''manifest.txt'', TextFile (ls_manifest ls))]"
  have content: "zip_file ''manifest.txt'' (TextFile (ls_manifest ls)) (ls_zip ls) = ?content"
    using loop(2,9) zip_file_fresh[of "''manifest.txt''" "?zip0 @ new" "TextFile (ls_manifest ls)"]
    by simp
  have "generated (handleExportAll env history st) = generated st @ [?content]"
    "downloads (handleExportAll env history st)
       = downloads st @ [(''voxgem-studio-export-'' @ decimal (clock_end env) @ ''.zip'', ?content)]"
    using assms(1) loop(1,10,11) content
    by (simp_all add: handleExportAll_def Let_def export_finally_def showToast_def)
  moreover have "length (entries_in ''wav_audio'' ?content) = length history"
    using loop(4) by (simp add: entries_in_def)
  moreover have "length (entries_in ''mp4_video'' ?content) = length history"
    using loop(5) by (simp add: entries_in_def)
  moreover have "length (file_entries ?content) = 2 * length history + 1"
    using loop(3,6) by (simp add: file_entries_def)
  moreover have "map_of ?content ''manifest.txt'' = Some (TextFile (ls_manifest ls))"
  proof -
    have "map_of new ''manifest.txt'' = None"
      using loop(9) by (simp add: map_of_eq_None_iff)
    then show ?thesis by (simp add: map_add_def)
  qed
  moreover have "distinct (map fst ?content)"
    using loop(7,8,9) by auto
  ultimately show ?thesis by blast
qed

text \<open>
  Claim C2, as amended. Exporting an empty collection is a no-op: the handler returns
  at once and no archive is made. Exporting \<open>k > 0\<close> records whose video derivations all
  resolve generates one archive and offers it for download; it holds exactly \<open>k\<close> files
  under \<open>wav_audio/\<close>, exactly \<open>k\<close> files under \<open>mp4_video/\<close> and \<open>manifest.txt\<close>, that is
  \<open>2k + 1\<close> files, and all names in the archive are different.
\<close>

theorem export_packages_records:
  "handleExportAll env [] st = st
   \<and> (history \<noteq> [] \<and> (\<forall>j<length history. \<exists>b. derive_video env j (history ! j) = Resolved b)
       \<longrightarrow> (\<exists>content manifest.
              generated (handleExportAll env history st) = generated st @ [content]
            \<and> downloads (handleExportAll env history st)
                = downloads st
                    @ [(''voxgem-studio-export-'' @ decimal (clock_end env) @ ''.zip'', content)]
            \<and> length (entries_in ''wav_audio'' content) = length history
            \<and> length (entries_in ''mp4_video'' content) = length history
            \<and> length (file_entries content) = 2 * length history + 1
            \<and> map_of content ''manifest.txt'' = Some (TextFile manifest)
            \<and> distinct (map fst content)))"
  using export_archive[of history env st] by (simp add: handleExportAll_def)

lemma example_video:
  "derive_video example_env 0 example_generation
     = Resolved \<lparr>blob_bytes = [7], blob_type = ''video/mp4''\<rparr>"
  by (simp add: derive_video_def audioBlobToVideo_def audioBlobToVideo_start_def
      example_env_def example_browser_def settle_def)

theorem export_packages_records_witness:
  "[example_generation] \<noteq> []
   \<and> derive_video example_env 0 ([example_generation] ! 0)
       = Resolved \<lparr>blob_bytes = [7], blob_type = ''video/mp4''\<rparr>
   \<and> map (\<lambda>d. map fst (snd d)) (downloads (handleExportAll example_env [example_generation] initial_app))
       = [[''wav_audio/'', ''mp4_video/'', ''wav_audio/1_Kore__1x__0123abcd.wav'',
           ''mp4_video/1_Kore__1x__0123abcd.mp4'', ''manifest.txt'']]"
  using export_packages_records[of example_env initial_app "[example_generation]"] example_video
  by (simp add: handleExportAll_def Let_def export_finally_def showToast_def zip_folder_def
      zip_file_def baseFilename_def safeName_def alphanumeric_def example_generation_def
      initial_app_def decimal.simps char_of_eq_iff)

text \<open>
  Claim C2 as stated also says that packaging zero records produces an archive that
  holds only an empty manifest. The handler has no such path: with an empty history it
  returns before a \<open>JSZip\<close> object exists, and nothing is generated or downloaded.
\<close>

theorem export_of_nothing_makes_no_archive:
  "generated (handleExportAll example_env [] initial_app) = []
   \<and> downloads (handleExportAll example_env [] initial_app) = []
   \<and> handleExportAll example_env [] initial_app = initial_app"
  by (simp add: handleExportAll_def initial_app_def)

end
